theory Spec2Isabelle
  imports Complex_Main "HOL-Library.Log_Nat"
begin

text \<open>
  The booking wizard of \<^verbatim>\<open>src/components/BookingWizard.tsx\<close>: its numbers, its state, the
  derived prices, the two estimators, the availability effect with the calls it leaves in
  flight, and the wizard as a transition system over the events of the user and the answers of
  the calendar. The definitions come first; the properties follow.
\<close>

section \<open>JavaScript numbers\<close>

text \<open>
  Every number of \<^verbatim>\<open>BookingWizard.tsx\<close> is a JavaScript Number, an IEEE-754 binary64
  value. A finite one is modelled by the rational it denotes. An arithmetic operation is the
  exact operation on rationals followed by \<open>to_double\<close>, rounding to the nearest binary64
  value, ties to the even significand: 53 significant bits, and below \<open>2^-1022\<close> the fixed
  quantum \<open>2^-1074\<close> of the subnormal range. Results of magnitude \<open>2^1024\<close> and more
  (Infinity in JavaScript), NaN and the sign of zero are not represented; no value of the
  wizard comes near them.
\<close>

type_synonym number = rat

definition pow2 :: "int \<Rightarrow> rat" where
  "pow2 e = (if 0 \<le> e then 2 ^ nat e else 1 / 2 ^ nat (- e))"

text \<open>The binary exponent of a positive rational: \<open>pow2 (binexp x) \<le> x < pow2 (binexp x + 1)\<close>.\<close>

definition binexp :: "rat \<Rightarrow> int" where
  "binexp x = (if 1 \<le> x then bitlen \<lfloor>x\<rfloor> - 1 else - bitlen (\<lceil>1 / x\<rceil> - 1))"

definition round_half_even :: "rat \<Rightarrow> int" where
  "round_half_even y =
     (let f = \<lfloor>y\<rfloor>; r = y - of_int f
      in if r < 1 / 2 then f else if 1 / 2 < r then f + 1 else if even f then f else f + 1)"

definition to_double :: "rat \<Rightarrow> number" where
  "to_double x =
     (if x = 0 then 0
      else let q = pow2 (max (binexp \<bar>x\<bar>) (- 1022) - 52)
           in sgn x * of_int (round_half_even (\<bar>x\<bar> / q)) * q)"

text \<open>The operators \<^verbatim>\<open>+ - * /\<close> and the two \<^verbatim>\<open>Math\<close> functions the component calls.
  \<^verbatim>\<open>Math.ceil\<close> and \<^verbatim>\<open>Math.max\<close> are exact.\<close>

definition js_add :: "number \<Rightarrow> number \<Rightarrow> number" where
  "js_add x y = to_double (x + y)"

definition js_sub :: "number \<Rightarrow> number \<Rightarrow> number" where
  "js_sub x y = to_double (x - y)"

definition js_mul :: "number \<Rightarrow> number \<Rightarrow> number" where
  "js_mul x y = to_double (x * y)"

definition js_div :: "number \<Rightarrow> number \<Rightarrow> number" where
  "js_div x y = to_double (x / y)"

definition Math_ceil :: "number \<Rightarrow> number" where
  "Math_ceil x = of_int \<lceil>x\<rceil>"

definition Math_max :: "number \<Rightarrow> number \<Rightarrow> number" where
  "Math_max x y = max x y"

text \<open>A decimal literal of the source text denotes the binary64 value nearest to it.\<close>

definition lit :: "rat \<Rightarrow> number" where
  "lit d = to_double d"

section \<open>Data model\<close>

type_synonym ServiceType = string

text \<open>Modelled from the spec: \<^verbatim>\<open>SERVICE_OPTIONS\<close> lives in \<^verbatim>\<open>../constants\<close>; an entry has an
  id, a title, an hourly rate and the recommended hours. The catalog itself is a parameter of
  every definition that reads it.\<close>

record ServiceOption =
  service_id :: ServiceType
  title :: string
  hourlyRate :: number
  recommendedHours :: number

text \<open>Modelled from the spec: \<^verbatim>\<open>TimeSlot\<close>, \<^verbatim>\<open>User\<close> and the payment status are declared in
  \<^verbatim>\<open>../types\<close>. A field of \<^verbatim>\<open>User\<close> may be absent, which \<^verbatim>\<open>|| ''\<close> turns into the empty
  string.\<close>

record TimeSlot =
  slot_start :: string
  slot_end :: string
  available :: bool

datatype PaymentStatus = pending | processing | paid | failed

record User =
  user_firstName :: "string option"
  user_lastName :: "string option"
  user_email :: "string option"
  user_phone :: "string option"
  user_address :: "string option"

record ClientDetails =
  firstName :: string
  lastName :: string
  email :: string
  phone :: string
  address :: string
  notes' :: string

record BookingState =
  step :: number
  service :: "ServiceType option"
  hours :: number
  date :: "string option"
  timeSlot :: "TimeSlot option"
  clientDetails :: ClientDetails
  paymentStatus :: PaymentStatus

definition INITIAL_STATE :: BookingState where
  "INITIAL_STATE =
     \<lparr> step = 1, service = None, hours = 3, date = None, timeSlot = None,
       clientDetails = \<lparr> firstName = '''', lastName = '''', email = '''', phone = '''',
                         address = '''', notes' = '''' \<rparr>,
       paymentStatus = pending \<rparr>"

definition HST_RATE :: number where
  "HST_RATE = lit (13 / 100)"

record HomeEstimator =
  bedrooms :: number
  bathrooms :: number
  kitchen :: number
  living :: number

record OfficeEstimator =
  rooms :: number
  cafeteria :: number
  desks :: number
  washrooms :: number

datatype HomeField = Bedrooms | Bathrooms | Kitchen | Living

datatype OfficeField = Rooms | Cafeteria | Desks | Washrooms

text \<open>\<^verbatim>\<open>prev[field]\<close> and \<^verbatim>\<open>{ ...prev, [field]: v }\<close>.\<close>

fun home_get :: "HomeEstimator \<Rightarrow> HomeField \<Rightarrow> number" where
  "home_get e Bedrooms = bedrooms e"
| "home_get e Bathrooms = bathrooms e"
| "home_get e Kitchen = kitchen e"
| "home_get e Living = living e"

fun home_set :: "HomeEstimator \<Rightarrow> HomeField \<Rightarrow> number \<Rightarrow> HomeEstimator" where
  "home_set e Bedrooms v = e\<lparr>bedrooms := v\<rparr>"
| "home_set e Bathrooms v = e\<lparr>bathrooms := v\<rparr>"
| "home_set e Kitchen v = e\<lparr>kitchen := v\<rparr>"
| "home_set e Living v = e\<lparr>living := v\<rparr>"

fun office_get :: "OfficeEstimator \<Rightarrow> OfficeField \<Rightarrow> number" where
  "office_get e Rooms = rooms e"
| "office_get e Cafeteria = cafeteria e"
| "office_get e Desks = desks e"
| "office_get e Washrooms = washrooms e"

fun office_set :: "OfficeEstimator \<Rightarrow> OfficeField \<Rightarrow> number \<Rightarrow> OfficeEstimator" where
  "office_set e Rooms v = e\<lparr>rooms := v\<rparr>"
| "office_set e Cafeteria v = e\<lparr>cafeteria := v\<rparr>"
| "office_set e Desks v = e\<lparr>desks := v\<rparr>"
| "office_set e Washrooms v = e\<lparr>washrooms := v\<rparr>"

text \<open>
  A call of \<^verbatim>\<open>getRealAvailability\<close> that has not settled yet is the suspended body of
  \<^verbatim>\<open>fetchSlots\<close>: it holds the date and hours of the render whose effect started it, and the
  duration it sent.
\<close>

record PendingFetch =
  fetch_date :: string
  fetch_hours :: number
  duration :: number

datatype Outcome = Fulfilled "TimeSlot list" | Rejected string

text \<open>
  The state of the component: the \<^verbatim>\<open>useState\<close> cells the handlers of the source read or
  write, the calls in flight, and what \<^verbatim>\<open>console.error\<close> has printed.
\<close>

record Wizard =
  booking :: BookingState
  availableSlots :: "TimeSlot list"
  isLoadingSlots :: bool
  homeEstimator :: HomeEstimator
  officeEstimator :: OfficeEstimator
  inFlight :: "PendingFetch list"
  console :: "(string \<times> string) list"

definition initialWizard :: Wizard where
  "initialWizard =
     \<lparr> booking = INITIAL_STATE, availableSlots = [], isLoadingSlots = False,
       homeEstimator = \<lparr> bedrooms = 2, bathrooms = 1, kitchen = 1, living = 1 \<rparr>,
       officeEstimator = \<lparr> rooms = 6, cafeteria = 0, desks = 20, washrooms = 2 \<rparr>,
       inFlight = [], console = [] \<rparr>"

section \<open>Derived figures\<close>

definition currentService :: "ServiceOption list \<Rightarrow> BookingState \<Rightarrow> ServiceOption option" where
  "currentService SERVICE_OPTIONS b = find (\<lambda>s. Some (service_id s) = service b) SERVICE_OPTIONS"

definition isOfficeService :: "ServiceOption list \<Rightarrow> BookingState \<Rightarrow> bool" where
  "isOfficeService SERVICE_OPTIONS b =
     (case currentService SERVICE_OPTIONS b of None \<Rightarrow> False | Some s \<Rightarrow> service_id s = ''office'')"

definition subtotal :: "ServiceOption list \<Rightarrow> BookingState \<Rightarrow> number" where
  "subtotal SERVICE_OPTIONS b =
     (case currentService SERVICE_OPTIONS b of
        Some s \<Rightarrow> js_mul (hourlyRate s) (hours b)
      | None \<Rightarrow> 0)"

definition hstAmount :: "ServiceOption list \<Rightarrow> BookingState \<Rightarrow> number" where
  "hstAmount SERVICE_OPTIONS b = js_mul (subtotal SERVICE_OPTIONS b) HST_RATE"

definition totalCost :: "ServiceOption list \<Rightarrow> BookingState \<Rightarrow> number" where
  "totalCost SERVICE_OPTIONS b = js_add (subtotal SERVICE_OPTIONS b) (hstAmount SERVICE_OPTIONS b)"

definition depositAmount :: "ServiceOption list \<Rightarrow> BookingState \<Rightarrow> number" where
  "depositAmount SERVICE_OPTIONS b = js_mul (totalCost SERVICE_OPTIONS b) (lit (30 / 100))"

definition remainingAmount :: "ServiceOption list \<Rightarrow> BookingState \<Rightarrow> number" where
  "remainingAmount SERVICE_OPTIONS b = js_mul (totalCost SERVICE_OPTIONS b) (lit (70 / 100))"

section \<open>Effects\<close>

definition or_empty :: "string option \<Rightarrow> string" where
  "or_empty x = (case x of None \<Rightarrow> '''' | Some s \<Rightarrow> s)"

text \<open>The effect on \<^verbatim>\<open>[currentUser]\<close>: client details are filled from the logged-in user.\<close>

definition prefill :: "User option \<Rightarrow> Wizard \<Rightarrow> Wizard" where
  "prefill currentUser w =
     (case currentUser of
        None \<Rightarrow> w
      | Some u \<Rightarrow>
          w\<lparr>booking := (booking w)\<lparr>clientDetails := (clientDetails (booking w))
            \<lparr> firstName := or_empty (user_firstName u),
              lastName := or_empty (user_lastName u),
              email := or_empty (user_email u),
              phone := or_empty (user_phone u),
              address := or_empty (user_address u) \<rparr>\<rparr>\<rparr>)"

text \<open>\<^verbatim>\<open>booking.date && booking.hours\<close>: \<^verbatim>\<open>null\<close>, the empty string and zero are falsy.\<close>

definition date_and_hours :: "BookingState \<Rightarrow> bool" where
  "date_and_hours b = (date b \<noteq> None \<and> date b \<noteq> Some '''' \<and> hours b \<noteq> 0)"

text \<open>
  The effect on \<^verbatim>\<open>[booking.date, booking.hours]\<close>, up to its \<^verbatim>\<open>await\<close>: the slot list is
  emptied, and when date and hours are set the loading flag is raised and the query is sent
  with \<^verbatim>\<open>Math.ceil(booking.hours)\<close>. The effect returns no cleanup function and keeps no
  handle on the call.
\<close>

definition fetchSlotsEffect :: "Wizard \<Rightarrow> Wizard" where
  "fetchSlotsEffect w =
     (let w1 = w\<lparr>availableSlots := []\<rparr>
      in if date_and_hours (booking w1)
         then w1\<lparr> isLoadingSlots := True,
                 inFlight := inFlight w1 @
                   [\<lparr> fetch_date = the (date (booking w1)),
                      fetch_hours = hours (booking w1),
                      duration = Math_ceil (hours (booking w1)) \<rparr>] \<rparr>
         else w1)"

text \<open>
  The rest of \<^verbatim>\<open>fetchSlots\<close>, run when the \<open>i\<close>-th call in flight settles with outcome \<open>r\<close>:
  the \<^verbatim>\<open>try\<close> branch stores the slots, the \<^verbatim>\<open>catch\<close> branch prints the error, and
  \<^verbatim>\<open>finally\<close> lowers the loading flag. Calls may settle in any order.
\<close>

definition settleFetch :: "nat \<Rightarrow> Outcome \<Rightarrow> Wizard \<Rightarrow> Wizard" where
  "settleFetch i r w =
     (if i < length (inFlight w)
      then let w1 = w\<lparr>inFlight := take i (inFlight w) @ drop (Suc i) (inFlight w)\<rparr>
           in case r of
                Fulfilled slots \<Rightarrow> w1\<lparr>availableSlots := slots, isLoadingSlots := False\<rparr>
              | Rejected err \<Rightarrow>
                  w1\<lparr>console := console w1 @ [(''Failed to load slots'', err)],
                     isLoadingSlots := False\<rparr>
      else w)"

text \<open>Mounting: the first render shows the initial state, then both effects run.\<close>

definition mount :: "User option \<Rightarrow> Wizard" where
  "mount currentUser = fetchSlotsEffect (prefill currentUser initialWizard)"

text \<open>After an update React renders again and runs the availability effect when one of its
  dependencies differs from the previous render.\<close>

definition rerender :: "Wizard \<Rightarrow> Wizard \<Rightarrow> Wizard" where
  "rerender old new =
     (if date (booking new) \<noteq> date (booking old) \<or> hours (booking new) \<noteq> hours (booking old)
      then fetchSlotsEffect new else new)"

section \<open>Handlers\<close>

definition handleNext :: "Wizard \<Rightarrow> Wizard" where
  "handleNext w = w\<lparr>booking := (booking w)\<lparr>step := js_add (step (booking w)) 1\<rparr>\<rparr>"

definition handleBack :: "Wizard \<Rightarrow> Wizard" where
  "handleBack w = w\<lparr>booking := (booking w)\<lparr>step := js_sub (step (booking w)) 1\<rparr>\<rparr>"

definition handleHomeChange :: "HomeField \<Rightarrow> number \<Rightarrow> Wizard \<Rightarrow> Wizard" where
  "handleHomeChange field delta w =
     (let prev = homeEstimator w;
          nextValue = Math_max 0 (js_add (home_get prev field) delta);
          newState = home_set prev field nextValue;
          h0 = 0;
          h1 = js_add h0 (js_mul (kitchen newState) (lit (75 / 100)));
          h2 = js_add h1 (js_mul (bathrooms newState) (lit (5 / 10)));
          h3 = js_add h2 (js_mul (bedrooms newState) (lit (3 / 10)));
          h4 = js_add h3 (js_mul (living newState) (lit (25 / 100)));
          rounded = js_div (Math_ceil (js_mul h4 2)) 2;
          finalHours = Math_max 2 rounded
      in w\<lparr>homeEstimator := newState, booking := (booking w)\<lparr>hours := finalHours\<rparr>\<rparr>)"

definition handleOfficeChange :: "OfficeField \<Rightarrow> number \<Rightarrow> Wizard \<Rightarrow> Wizard" where
  "handleOfficeChange field delta w =
     (let prev = officeEstimator w;
          nextValue = Math_max 0 (js_add (office_get prev field) delta);
          newState = office_set prev field nextValue;
          h0 = 0;
          h1 = js_add h0 (js_mul (rooms newState) (lit (3 / 10)));
          h2 = js_add h1 (js_mul (cafeteria newState) (lit (67 / 100)));
          h3 = js_add h2 (js_mul (desks newState) (lit (133 / 1000)));
          h4 = js_add h3 (js_mul (washrooms newState) (lit (42 / 100)));
          h5 = js_add h4 (lit (75 / 100));
          rounded = js_div (Math_ceil (js_mul h5 2)) 2;
          finalHours = Math_max 3 rounded
      in w\<lparr>officeEstimator := newState, booking := (booking w)\<lparr>hours := finalHours\<rparr>\<rparr>)"

text \<open>The \<^verbatim>\<open>onChange\<close> of the range input: \<open>v\<close> is \<^verbatim>\<open>parseFloat(e.target.value)\<close>.\<close>

definition sliderChange :: "number \<Rightarrow> Wizard \<Rightarrow> Wizard" where
  "sliderChange v w = w\<lparr>booking := (booking w)\<lparr>hours := v\<rparr>\<rparr>"

text \<open>A range input with \<^verbatim>\<open>min="2" max="10" step="0.5"\<close> reports one of 2, 2.5, ..., 10.\<close>

definition slider_value :: "number \<Rightarrow> bool" where
  "slider_value v = (v \<in> set (map (\<lambda>k. 2 + of_nat k / 2) [0..<17]))"

section \<open>The estimator formulas as the specification words them\<close>

text \<open>
  \<^verbatim>\<open>roundUpToHalf(x) = ceil(x * 2) / 2\<close>,
  \<^verbatim>\<open>homeHours = max(2, roundUpToHalf(kitchen*0.75 + bathrooms*0.5 + bedrooms*0.3 + living*0.25))\<close>,
  \<^verbatim>\<open>officeHours = max(3, roundUpToHalf(rooms*0.3 + cafeteria*0.67 + desks*0.133 + washrooms*0.42 + 0.75))\<close>,
  each operator being the program's.
\<close>

definition roundUpToHalf :: "number \<Rightarrow> number" where
  "roundUpToHalf x = js_div (Math_ceil (js_mul x 2)) 2"

definition homeHours :: "HomeEstimator \<Rightarrow> number" where
  "homeHours counts =
     (let raw = js_add (js_add (js_add (js_mul (kitchen counts) (lit (75 / 100)))
                                       (js_mul (bathrooms counts) (lit (5 / 10))))
                               (js_mul (bedrooms counts) (lit (3 / 10))))
                       (js_mul (living counts) (lit (25 / 100)))
      in Math_max 2 (roundUpToHalf raw))"

definition officeHours :: "OfficeEstimator \<Rightarrow> number" where
  "officeHours counts =
     (let raw = js_add (js_add (js_add (js_add (js_mul (rooms counts) (lit (3 / 10)))
                                               (js_mul (cafeteria counts) (lit (67 / 100))))
                                       (js_mul (desks counts) (lit (133 / 1000))))
                               (js_mul (washrooms counts) (lit (42 / 100))))
                       (lit (75 / 100))
      in Math_max 3 (roundUpToHalf raw))"

section \<open>The wizard as a transition system\<close>

text \<open>
  One event is one handler call followed by the render it causes. \<open>Settled i r\<close> is the
  arrival of outcome \<open>r\<close> for the \<open>i\<close>-th call in flight.
\<close>

datatype Event =
    Next
  | Back
  | HomeChange HomeField number
  | OfficeChange OfficeField number
  | Slider number
  | Settled nat Outcome

fun handler :: "Event \<Rightarrow> Wizard \<Rightarrow> Wizard" where
  "handler Next w = handleNext w"
| "handler Back w = handleBack w"
| "handler (HomeChange field delta) w = handleHomeChange field delta w"
| "handler (OfficeChange field delta) w = handleOfficeChange field delta w"
| "handler (Slider v) w = sliderChange v w"
| "handler (Settled i r) w = settleFetch i r w"

definition dispatch :: "Event \<Rightarrow> Wizard \<Rightarrow> Wizard" where
  "dispatch e w = rerender w (handler e w)"

text \<open>
  What the markup allows: the counters of the home group are shown unless the service is the
  office one, a counter button passes +1 or -1 and the minus button is disabled at zero, the
  slider reports a value of its range, and only a call in flight can settle.
\<close>

fun enabled :: "ServiceOption list \<Rightarrow> Event \<Rightarrow> Wizard \<Rightarrow> bool" where
  "enabled SERVICE_OPTIONS Next w = True"
| "enabled SERVICE_OPTIONS Back w = True"
| "enabled SERVICE_OPTIONS (HomeChange field delta) w =
     (\<not> isOfficeService SERVICE_OPTIONS (booking w) \<and>
      (delta = 1 \<or> (delta = - 1 \<and> home_get (homeEstimator w) field \<noteq> 0)))"
| "enabled SERVICE_OPTIONS (OfficeChange field delta) w =
     (isOfficeService SERVICE_OPTIONS (booking w) \<and>
      (delta = 1 \<or> (delta = - 1 \<and> office_get (officeEstimator w) field \<noteq> 0)))"
| "enabled SERVICE_OPTIONS (Slider v) w = slider_value v"
| "enabled SERVICE_OPTIONS (Settled i r) w = (i < length (inFlight w))"

text \<open>
  Modelled from the spec: the pickers of service, date and time slot, the client form and the
  payment step are elided in the source (\<^verbatim>\<open>renderServiceSelection\<close>,
  \<^verbatim>\<open>renderDateTimeSelection\<close>, \<^verbatim>\<open>renderClientDetails\<close>, \<^verbatim>\<open>renderPaymentStep\<close>). Rule
  \<open>elided\<close> stands for all of them: such a handler may store any booking that keeps
  \<^verbatim>\<open>hours\<close>, whose writers are the initial state, the two estimators and the slider.
\<close>

inductive reachable :: "ServiceOption list \<Rightarrow> User option \<Rightarrow> Wizard \<Rightarrow> bool"
  for SERVICE_OPTIONS :: "ServiceOption list" and currentUser :: "User option" where
  mounted: "reachable SERVICE_OPTIONS currentUser (mount currentUser)"
| event: "reachable SERVICE_OPTIONS currentUser w \<Longrightarrow> enabled SERVICE_OPTIONS e w \<Longrightarrow>
          reachable SERVICE_OPTIONS currentUser (dispatch e w)"
| elided: "reachable SERVICE_OPTIONS currentUser w \<Longrightarrow> hours b = hours (booking w) \<Longrightarrow>
           reachable SERVICE_OPTIONS currentUser (rerender w (w\<lparr>booking := b\<rparr>))"

text \<open>A run of events, first event first.\<close>

fun run :: "Event list \<Rightarrow> Wizard \<Rightarrow> Wizard" where
  "run [] w = w"
| "run (e # es) w = run es (dispatch e w)"

text \<open>The events that write slots into the list: the fulfilment of a call.\<close>

fun fulfils :: "Event \<Rightarrow> bool" where
  "fulfils (Settled i (Fulfilled slots)) = True"
| "fulfils e = False"

text \<open>A multiple of 0.5 is a number whose double is an integer.\<close>

definition multiple_of_half :: "number \<Rightarrow> bool" where
  "multiple_of_half h = (of_int \<lfloor>h * 2\<rfloor> = h * 2)"

section \<open>Scenarios\<close>

text \<open>A catalog with a home service at 50 an hour and the office service.\<close>

definition catalog :: "ServiceOption list" where
  "catalog =
     [\<lparr> service_id = ''standard'', title = ''Standard Home Clean'', hourlyRate = 50,
         recommendedHours = 3 \<rparr>,
      \<lparr> service_id = ''office'', title = ''Office Cleaning'', hourlyRate = 60,
         recommendedHours = 4 \<rparr>]"

text \<open>The wizard after the customer chose the home service and then a date, each stored in
  the booking by its picker: the render after the date was stored runs the availability effect
  for that date and 3 hours.\<close>

definition service_chosen :: Wizard where
  "service_chosen =
     rerender (mount None)
       ((mount None)\<lparr>booking := (booking (mount None))\<lparr>service := Some ''standard''\<rparr>\<rparr>)"

definition date_chosen :: Wizard where
  "date_chosen =
     rerender service_chosen
       (service_chosen\<lparr>booking := (booking service_chosen)\<lparr>date := Some ''2026-11-09''\<rparr>\<rparr>)"

definition slot9 :: TimeSlot where
  "slot9 = \<lparr> slot_start = ''09:00'', slot_end = ''12:00'', available = True \<rparr>"

definition slot13 :: TimeSlot where
  "slot13 = \<lparr> slot_start = ''13:00'', slot_end = ''17:00'', available = True \<rparr>"

text \<open>The slider is moved to 4 before the first answer arrives: two calls are in flight, the
  earlier for 3 hours, the later for 4.\<close>

definition two_in_flight :: Wizard where
  "two_in_flight = dispatch (Slider 4) date_chosen"

text \<open>The first call is answered with two slots and the customer picks the one at 9.\<close>

definition slots_loaded :: Wizard where
  "slots_loaded = dispatch (Settled 0 (Fulfilled [slot9, slot13])) date_chosen"

definition slot_chosen :: Wizard where
  "slot_chosen =
     rerender slots_loaded
       (slots_loaded\<lparr>booking := (booking slots_loaded)\<lparr>timeSlot := Some slot9\<rparr>\<rparr>)"

text \<open>The wizard after the customer chose the office service.\<close>

definition office_chosen :: Wizard where
  "office_chosen =
     rerender (mount None)
       ((mount None)\<lparr>booking := (booking (mount None))\<lparr>service := Some ''office''\<rparr>\<rparr>)"

section \<open>Properties of the rounding\<close>

lemma pow2_powi: "pow2 e = 2 powi e"
  by (simp add: pow2_def power_int_def inverse_eq_divide power_one_over)

lemma pow2_pos: "0 < pow2 e"
  by (simp add: pow2_powi)

lemma pow2_add: "pow2 (a + b) = pow2 a * pow2 b"
  by (simp add: pow2_powi power_int_add)

lemma pow2_mono: "a \<le> b \<Longrightarrow> pow2 a \<le> pow2 b"
  by (simp add: pow2_powi power_int_increasing)

lemma pow2_strict_mono: "a < b \<Longrightarrow> pow2 a < pow2 b"
  by (simp add: pow2_powi power_int_strict_increasing)

lemma pow2_nat: "0 \<le> e \<Longrightarrow> pow2 e = of_int (2 ^ nat e)"
  by (simp add: pow2_def)

lemma binexp_bounds:
  assumes "0 < x"
  shows "pow2 (binexp x) \<le> x \<and> x < pow2 (binexp x + 1)"
proof (cases "1 \<le> x")
  case True
  define n where "n = \<lfloor>x\<rfloor>"
  have n1: "1 \<le> n" using True by (simp add: n_def)
  have bl: "1 \<le> bitlen n" using n1 by (simp add: bitlen_alt_def)
  from bitlen_bounds [of n] n1
  have lo: "2 ^ nat (bitlen n - 1) \<le> n" and hi: "n < 2 ^ nat (bitlen n)" by auto
  have e: "binexp x = bitlen n - 1" using True by (simp add: binexp_def n_def)
  have "pow2 (bitlen n - 1) = of_int (2 ^ nat (bitlen n - 1))"
    using bl by (simp add: pow2_nat)
  also have "\<dots> \<le> of_int n" using lo by (simp only: of_int_le_iff)
  also have "\<dots> \<le> x" by (simp add: n_def)
  finally have A: "pow2 (binexp x) \<le> x" by (simp add: e)
  have "x < of_int (n + 1)" unfolding n_def by linarith
  also have "\<dots> \<le> of_int (2 ^ nat (bitlen n))" using hi by (simp only: of_int_le_iff)
  also have "\<dots> = pow2 (bitlen n)" using bl by (simp add: pow2_nat)
  finally have B: "x < pow2 (binexp x + 1)" by (simp add: e)
  from A B show ?thesis ..
next
  case False
  define y where "y = 1 / x"
  define n where "n = \<lceil>y\<rceil> - 1"
  have y1: "1 < y" using False assms by (simp add: y_def)
  have n1: "1 \<le> n" using y1 unfolding n_def by linarith
  have ny: "of_int n < y" "y \<le> of_int n + 1" unfolding n_def by linarith+
  have bl: "1 \<le> bitlen n" using n1 by (simp add: bitlen_alt_def)
  from bitlen_bounds [of n] n1
  have lo: "2 ^ nat (bitlen n - 1) \<le> n" and hi: "n < 2 ^ nat (bitlen n)" by auto
  have e: "binexp x = - bitlen n" using False by (simp add: binexp_def n_def y_def)
  have "y \<le> of_int (n + 1)" using ny by simp
  also have "\<dots> \<le> of_int (2 ^ nat (bitlen n))" using hi by (simp only: of_int_le_iff)
  also have "\<dots> = pow2 (bitlen n)" using bl by (simp add: pow2_nat)
  finally have "1 / x \<le> pow2 (bitlen n)" by (simp add: y_def)
  then have "1 \<le> pow2 (bitlen n) * x" using assms by (simp add: field_simps)
  moreover have "pow2 (- bitlen n) * pow2 (bitlen n) = 1"
    using pow2_add [of "- bitlen n" "bitlen n"] by (simp add: pow2_def)
  ultimately have A: "pow2 (- bitlen n) \<le> x"
    using pow2_pos [of "bitlen n"] pow2_pos [of "- bitlen n"]
    by (smt (verit) mult.assoc mult.commute mult_le_cancel_left_pos mult.right_neutral)
  have "pow2 (bitlen n - 1) = of_int (2 ^ nat (bitlen n - 1))"
    using bl by (simp add: pow2_nat)
  also have "\<dots> \<le> of_int n" using lo by (simp only: of_int_le_iff)
  also have "\<dots> < y" using ny by simp
  finally have "pow2 (bitlen n - 1) < 1 / x" by (simp add: y_def)
  then have "pow2 (bitlen n - 1) * x < 1" using assms by (simp add: field_simps)
  moreover have "pow2 (- bitlen n + 1) * pow2 (bitlen n - 1) = 1"
    using pow2_add [of "- bitlen n + 1" "bitlen n - 1"] by (simp add: pow2_def)
  ultimately have B: "x < pow2 (- bitlen n + 1)"
    using pow2_pos [of "bitlen n - 1"] pow2_pos [of "- bitlen n + 1"]
    by (smt (verit) mult.assoc mult.commute mult_less_cancel_left_pos mult.right_neutral)
  from A B show ?thesis by (simp add: e)
qed

lemma binexp_unique:
  assumes "pow2 e \<le> x" "x < pow2 (e + 1)"
  shows "binexp x = e"
proof -
  have x0: "0 < x" using assms(1) pow2_pos [of e] by linarith
  from binexp_bounds [OF x0]
  have b: "pow2 (binexp x) \<le> x" "x < pow2 (binexp x + 1)" by auto
  have "pow2 e < pow2 (binexp x + 1)" using assms(1) b(2) by linarith
  then have 1: "e < binexp x + 1"
    using pow2_mono [of "binexp x + 1" e] by (cases "e < binexp x + 1") auto
  have "pow2 (binexp x) < pow2 (e + 1)" using assms(2) b(1) by linarith
  then have 2: "binexp x < e + 1"
    using pow2_mono [of "e + 1" "binexp x"] by (cases "binexp x < e + 1") auto
  from 1 2 show ?thesis by linarith
qed

lemma round_half_even_of_int: "round_half_even (of_int n) = n"
  by (simp add: round_half_even_def)

lemma round_half_even_err: "\<bar>of_int (round_half_even y) - y\<bar> \<le> 1 / 2"
proof -
  have "of_int \<lfloor>y\<rfloor> \<le> y" "y < of_int \<lfloor>y\<rfloor> + 1" by linarith+
  then show ?thesis
    by (auto simp: round_half_even_def Let_def abs_le_iff)
qed

lemma round_half_even_le: "y \<le> of_int n \<Longrightarrow> round_half_even y \<le> n"
proof -
  assume a: "y \<le> of_int n"
  have fl: "\<lfloor>y\<rfloor> \<le> n" using a by (simp add: floor_le_iff) 
  show ?thesis
  proof (cases "y = of_int n")
    case True then show ?thesis by (simp add: round_half_even_of_int)
  next
    case False
    then have "y < of_int n" using a by simp
    then have "\<lfloor>y\<rfloor> < n" by (simp add: floor_less_iff)
    then show ?thesis by (auto simp: round_half_even_def Let_def)
  qed
qed

lemma round_half_even_nonneg: "0 \<le> y \<Longrightarrow> 0 \<le> round_half_even y"
  by (auto simp: round_half_even_def Let_def)

lemma pow2_diff_int:
  assumes "qe \<le> e"
  shows "pow2 e / pow2 qe = of_int (2 ^ nat (e - qe))"
proof -
  have "pow2 e = pow2 (e - qe) * pow2 qe" using pow2_add [of "e - qe" qe] by simp
  then have "pow2 e / pow2 qe = pow2 (e - qe)" using pow2_pos [of qe] by simp
  then show ?thesis using assms by (simp add: pow2_nat)
qed

lemma to_double_exact:
  assumes "x = of_int m * pow2 e" "\<bar>m\<bar> < 2 ^ 53" "- 1074 \<le> e"
  shows "to_double x = x"
proof (cases "x = 0")
  case True then show ?thesis by (simp add: to_double_def)
next
  case False
  define b where "b = binexp \<bar>x\<bar>"
  define qe where "qe = max b (- 1022) - 52"
  have ax: "\<bar>x\<bar> = of_int \<bar>m\<bar> * pow2 e"
    using assms(1) pow2_pos [of e] by (simp add: abs_mult)
  have x0: "0 < \<bar>x\<bar>" using False by simp
  from binexp_bounds [OF x0] have lo: "pow2 b \<le> \<bar>x\<bar>" by (simp add: b_def)
  have "of_int \<bar>m\<bar> < (2 ^ 53 :: rat)" using assms(2)
    by (metis of_int_less_iff of_int_numeral of_int_power)
  then have "\<bar>x\<bar> < 2 ^ 53 * pow2 e" using pow2_pos [of e] by (simp add: ax)
  also have "\<dots> = pow2 (53 + e)" by (simp add: pow2_add) (simp add: pow2_def)
  finally have "pow2 b < pow2 (53 + e)" using lo by linarith
  then have "b < 53 + e" using pow2_mono [of "53 + e" b] by (cases "b < 53 + e") auto
  then have qle: "qe \<le> e" using assms(3) by (simp add: qe_def)
  have "\<bar>x\<bar> / pow2 qe = of_int \<bar>m\<bar> * (pow2 e / pow2 qe)" by (simp add: ax)
  also have "\<dots> = of_int (\<bar>m\<bar> * 2 ^ nat (e - qe))" by (simp add: pow2_diff_int [OF qle])
  finally have "round_half_even (\<bar>x\<bar> / pow2 qe) = \<bar>m\<bar> * 2 ^ nat (e - qe)"
    by (simp only: round_half_even_of_int)
  then have "of_int (round_half_even (\<bar>x\<bar> / pow2 qe)) * pow2 qe = of_int \<bar>m\<bar> * (pow2 e / pow2 qe) * pow2 qe"
    by (simp add: pow2_diff_int [OF qle])
  also have "\<dots> = \<bar>x\<bar>" using pow2_pos [of qe] by (simp add: ax)
  finally have "sgn x * of_int (round_half_even (\<bar>x\<bar> / pow2 qe)) * pow2 qe = sgn x * \<bar>x\<bar>"
    by (simp add: mult.assoc)
  then show ?thesis using False
    by (simp add: to_double_def Let_def b_def qe_def sgn_mult_abs[simplified] mult_sgn_abs)
qed

lemma to_double_representable:
  "\<exists>m e. to_double y = of_int m * pow2 e \<and> \<bar>m\<bar> < 2 ^ 53 \<and> - 1074 \<le> e"
proof (cases "y = 0")
  case True
  have "to_double y = of_int 0 * pow2 0 \<and> \<bar>0::int\<bar> < 2 ^ 53 \<and> - 1074 \<le> (0::int)"
    using True by (simp add: to_double_def)
  then show ?thesis by blast
next
  case False
  define b where "b = binexp \<bar>y\<bar>"
  define qe where "qe = max b (- 1022) - 52"
  define k where "k = round_half_even (\<bar>y\<bar> / pow2 qe)"
  have td: "to_double y = sgn y * of_int k * pow2 qe"
    using False by (simp add: to_double_def Let_def b_def qe_def k_def)
  have y0: "0 < \<bar>y\<bar>" using False by simp
  from binexp_bounds [OF y0] have hi: "\<bar>y\<bar> < pow2 (b + 1)" by (simp add: b_def)
  have "b + 1 \<le> qe + 53" by (simp add: qe_def)
  then have "pow2 (b + 1) \<le> pow2 (qe + 53)" by (rule pow2_mono)
  also have "\<dots> = pow2 qe * 2 ^ 53" by (simp add: pow2_add) (simp add: pow2_def)
  finally have "\<bar>y\<bar> < pow2 qe * 2 ^ 53" using hi by linarith
  then have "\<bar>y\<bar> / pow2 qe \<le> of_int (2 ^ 53)" using pow2_pos [of qe]
    by (simp add: field_simps)
  then have kle: "k \<le> 2 ^ 53" unfolding k_def by (rule round_half_even_le)
  have k0: "0 \<le> k" unfolding k_def using pow2_pos [of qe]
    by (intro round_half_even_nonneg) simp
  have qe: "- 1074 \<le> qe" by (simp add: qe_def)
  have sg: "sgn y = 1 \<or> sgn y = - 1" using False by (auto simp: sgn_if)
  show ?thesis
  proof (cases "k = 2 ^ 53")
    case True
    have "pow2 (qe + 1) = pow2 qe * 2" by (simp add: pow2_add) (simp add: pow2_def)
    then have "to_double y = of_int (sgn (if 0 < y then 1 else - 1) * 2 ^ 52) * pow2 (qe + 1)"
      using False by (auto simp: td True sgn_if)
    moreover have "\<bar>sgn (if 0 < y then 1 else - 1) * 2 ^ 52 :: int\<bar> < 2 ^ 53" by simp
    moreover have "- 1074 \<le> qe + 1" using qe by simp
    ultimately show ?thesis by blast
  next
    case False
    then have "k < 2 ^ 53" using kle by simp
    then have "\<bar>(if 0 < y then 1 else - 1) * k\<bar> < 2 ^ 53" using k0 by (simp add: abs_mult)
    moreover have "to_double y = of_int ((if 0 < y then 1 else - 1) * k) * pow2 qe"
      using \<open>y \<noteq> 0\<close> by (auto simp: td sgn_if)
    ultimately show ?thesis using qe by blast
  qed
qed

lemma to_double_idem: "to_double (to_double y) = to_double y"
proof -
  obtain m e where "to_double y = of_int m * pow2 e" "\<bar>m\<bar> < 2 ^ 53" "- 1074 \<le> e"
    using to_double_representable by blast
  then show ?thesis by (rule to_double_exact)
qed

lemma to_double_rel_error:
  assumes "pow2 (- 1022) \<le> \<bar>x\<bar>"
  shows "\<bar>to_double x - x\<bar> \<le> \<bar>x\<bar> / 2 ^ 53"
proof -
  define b where "b = binexp \<bar>x\<bar>"
  define q where "q = pow2 (b - 52)"
  define k where "k = round_half_even (\<bar>x\<bar> / q)"
  have x0: "0 < \<bar>x\<bar>" using assms pow2_pos [of "- 1022"] by linarith
  then have xn: "x \<noteq> 0" by simp
  from binexp_bounds [OF x0] have lo: "pow2 b \<le> \<bar>x\<bar>" and hi: "\<bar>x\<bar> < pow2 (b + 1)"
    by (simp_all add: b_def)
  have "pow2 (- 1022) < pow2 (b + 1)" using assms hi by linarith
  then have "- 1022 < b + 1" using pow2_mono [of "b + 1" "- 1022"] by (cases "- 1022 < b + 1") auto
  then have mb: "max b (- 1022) = b" by simp
  have td: "to_double x = sgn x * of_int k * q"
    using xn by (simp add: to_double_def Let_def b_def [symmetric] mb q_def k_def)
  have q0: "0 < q" by (simp add: q_def pow2_pos)
  have "to_double x - x = sgn x * (of_int k * q - \<bar>x\<bar>)"
    using xn by (auto simp: td sgn_if algebra_simps)
  then have "\<bar>to_double x - x\<bar> = \<bar>of_int k * q - \<bar>x\<bar>\<bar>"
    using xn by (simp add: abs_mult abs_sgn_eq)
  also have "of_int k * q - \<bar>x\<bar> = (of_int k - \<bar>x\<bar> / q) * q" using q0 by (simp add: field_simps)
  also have "\<bar>(of_int k - \<bar>x\<bar> / q) * q\<bar> = \<bar>of_int k - \<bar>x\<bar> / q\<bar> * q" using q0 by (simp add: abs_mult)
  also have "\<dots> \<le> 1 / 2 * q"
    using round_half_even_err [of "\<bar>x\<bar> / q"] q0 unfolding k_def
    by (intro mult_right_mono) auto
  also have "q = pow2 b / 2 ^ 52" using pow2_add [of "b - 52" 52] by (simp add: q_def) (simp add: pow2_def)
  also have "1 / 2 * (pow2 b / 2 ^ 52) = pow2 b / 2 ^ 53" by simp
  also have "\<dots> \<le> \<bar>x\<bar> / 2 ^ 53" using lo by (simp add: divide_right_mono)
  finally show ?thesis .
qed


lemma floor_rat_numeral: "\<lfloor>numeral a / numeral b :: rat\<rfloor> = numeral a div numeral b"
  by (metis floor_divide_of_int_eq of_int_numeral)

lemma floor_rat_neg_numeral: "\<lfloor>- (numeral a / numeral b) :: rat\<rfloor> = - numeral a div numeral b"
  by (metis floor_divide_of_int_eq of_int_numeral of_int_minus minus_divide_left)

text \<open>Rewrite rules that evaluate the operations on numerals.\<close>

lemmas dbl_eval = to_double_def binexp_def pow2_def round_half_even_def bitlen_def
  compute_floorlog Let_def ceiling_def floor_rat_numeral floor_rat_neg_numeral

lemmas js_eval = js_add_def js_sub_def js_mul_def js_div_def Math_ceil_def Math_max_def lit_def

section \<open>Pricing\<close>

lemma currentService_none: "service b = None \<Longrightarrow> currentService SERVICE_OPTIONS b = None"
  by (simp add: currentService_def find_None_iff)

lemma js_mul_zero: "js_mul 0 y = 0"
  by (simp add: js_mul_def to_double_def)

lemma js_add_zero_zero: "js_add 0 0 = 0"
  by (simp add: js_add_def to_double_def)

lemma find_by_id:
  "distinct (map service_id xs) \<Longrightarrow> s \<in> set xs \<Longrightarrow>
   find (\<lambda>t. Some (service_id t) = Some (service_id s)) xs = Some s"
proof (induction xs)
  case Nil
  then show ?case by simp
next
  case (Cons x xs)
  show ?case
  proof (cases "service_id x = service_id s")
    case True
    have "x = s"
    proof (rule ccontr)
      assume "x \<noteq> s"
      then have "s \<in> set xs" using Cons.prems(2) by simp
      then have "service_id s \<in> set (map service_id xs)" by simp
      then show False using Cons.prems(1) True by simp
    qed
    then show ?thesis by simp
  next
    case False
    then have "s \<in> set xs" using Cons.prems(2) by auto
    moreover have "distinct (map service_id xs)" using Cons.prems(1) by simp
    ultimately show ?thesis using Cons.IH False by simp
  qed
qed

lemma currentService_selected:
  assumes "distinct (map service_id SERVICE_OPTIONS)" "s \<in> set SERVICE_OPTIONS"
    "service b = Some (service_id s)"
  shows "currentService SERVICE_OPTIONS b = Some s"
  using find_by_id [OF assms(1,2)] by (simp add: currentService_def assms(3))

lemma currentService_absent:
  assumes "service b = Some sid" "sid \<notin> service_id ` set SERVICE_OPTIONS"
  shows "currentService SERVICE_OPTIONS b = None"
  using assms by (auto simp: currentService_def find_None_iff)

section \<open>Estimators\<close>

text \<open>Adding a product to the initial \<^verbatim>\<open>0\<close> of the accumulator changes nothing: the product is
  a binary64 value already.\<close>

lemma js_add_zero_mul: "js_add 0 (js_mul x y) = js_mul x y"
  by (simp add: js_add_def js_mul_def to_double_idem)

lemma handleHomeChange_estimator:
  "homeEstimator (handleHomeChange field delta w) =
     home_set (homeEstimator w) field (Math_max 0 (js_add (home_get (homeEstimator w) field) delta))"
  by (simp add: handleHomeChange_def Let_def)

lemma handleHomeChange_hours:
  "hours (booking (handleHomeChange field delta w)) =
     homeHours (homeEstimator (handleHomeChange field delta w))"
  by (simp add: handleHomeChange_def homeHours_def roundUpToHalf_def Let_def js_add_zero_mul)


lemma handleOfficeChange_hours:
  "hours (booking (handleOfficeChange field delta w)) =
     officeHours (officeEstimator (handleOfficeChange field delta w))"
  by (simp add: handleOfficeChange_def officeHours_def roundUpToHalf_def Let_def js_add_zero_mul)

lemma homeHours_defaults:
  "homeHours \<lparr> bedrooms = 2, bathrooms = 1, kitchen = 1, living = 1 \<rparr> = 5 / 2"
  unfolding homeHours_def roundUpToHalf_def Let_def
  by (simp add: js_eval dbl_eval)


lemma js_add_small [simp]:
  "js_add 1 1 = 2" "js_add 2 1 = 3" "js_add 3 (- 1) = 2" "js_add 5 1 = 6" "js_add 1 (- 1) = 0"
  by (simp_all add: js_eval dbl_eval)


section \<open>Effects and handlers leave the rest alone\<close>

lemma prefill_hours [simp]: "hours (booking (prefill currentUser w)) = hours (booking w)"
  by (simp add: prefill_def split: option.split)

lemma prefill_others [simp]:
  "homeEstimator (prefill currentUser w) = homeEstimator w"
  "officeEstimator (prefill currentUser w) = officeEstimator w"
  "availableSlots (prefill currentUser w) = availableSlots w"
  "inFlight (prefill currentUser w) = inFlight w"
  "date (booking (prefill currentUser w)) = date (booking w)"
  "service (booking (prefill currentUser w)) = service (booking w)"
  "timeSlot (booking (prefill currentUser w)) = timeSlot (booking w)"
  "step (booking (prefill currentUser w)) = step (booking w)"
  by (simp_all add: prefill_def split: option.split)

lemma fetchSlotsEffect_keeps [simp]:
  "booking (fetchSlotsEffect w) = booking w"
  "homeEstimator (fetchSlotsEffect w) = homeEstimator w"
  "officeEstimator (fetchSlotsEffect w) = officeEstimator w"
  "console (fetchSlotsEffect w) = console w"
  "availableSlots (fetchSlotsEffect w) = []"
  by (simp_all add: fetchSlotsEffect_def Let_def)

lemma settleFetch_keeps [simp]:
  "booking (settleFetch i r w) = booking w"
  "homeEstimator (settleFetch i r w) = homeEstimator w"
  "officeEstimator (settleFetch i r w) = officeEstimator w"
  by (simp_all add: settleFetch_def Let_def split: Outcome.split)

lemma rerender_keeps [simp]:
  "booking (rerender old new) = booking new"
  "homeEstimator (rerender old new) = homeEstimator new"
  "officeEstimator (rerender old new) = officeEstimator new"
  "console (rerender old new) = console new"
  by (simp_all add: rerender_def)

lemma mount_booking_hours [simp]: "hours (booking (mount currentUser)) = 3"
  by (simp add: mount_def initialWizard_def INITIAL_STATE_def)

lemma mount_homeEstimator [simp]:
  "homeEstimator (mount currentUser) = \<lparr> bedrooms = 2, bathrooms = 1, kitchen = 1, living = 1 \<rparr>"
  by (simp add: mount_def initialWizard_def)

lemma to_double_of_int:
  assumes "\<bar>n\<bar> < 2 ^ 53"
  shows "to_double (of_int n) = of_int n"
proof -
  have "(of_int n :: rat) = of_int n * pow2 0" by (simp add: pow2_def)
  then show ?thesis using assms to_double_exact [of "of_int n" n 0] by simp
qed

section \<open>Steps\<close>

text \<open>
  C9. \<^verbatim>\<open>handleBack\<close> subtracts 1 from the step whatever the step is: at step 1 it stores 0,
  which lies in no range 1..N, and from every integer step of the binary64 integer range it
  stores the integer below.
\<close>

theorem handleBack_no_lower_bound:
  "step (booking (handleBack w)) = js_sub (step (booking w)) 1 \<and>
   (step (booking w) = 1 \<longrightarrow>
      step (booking (handleBack w)) = 0 \<and> (\<forall>N. step (booking (handleBack w)) \<notin> {1..N})) \<and>
   (\<forall>n::int. \<bar>n - 1\<bar> < 2 ^ 53 \<and> step (booking w) = of_int n \<longrightarrow>
      step (booking (handleBack w)) = of_int (n - 1))"
proof -
  have a: "step (booking (handleBack w)) = js_sub (step (booking w)) 1"
    by (simp add: handleBack_def)
  have b: "js_sub 1 1 = 0" by (simp add: js_sub_def to_double_def)
  have c: "js_sub (of_int n) 1 = of_int (n - 1)" if "\<bar>n - 1\<bar> < 2 ^ 53" for n :: int
    using to_double_of_int [OF that] by (simp add: js_sub_def)
  show ?thesis using a b c by auto
qed

text \<open>Back on the first step of the freshly mounted wizard.\<close>

theorem handleBack_no_lower_bound_witness:
  "step (booking (mount None)) = 1 \<and> step (booking (handleBack (mount None))) = 0 \<and>
   step (booking (handleBack (handleBack (mount None)))) = - 1"
proof -
  have s: "step (booking (mount None)) = 1"
    by (simp add: mount_def prefill_def initialWizard_def INITIAL_STATE_def)
  from handleBack_no_lower_bound [of "mount None"] s
  have z: "step (booking (handleBack (mount None))) = 0" by blast
  have "\<bar>(0::int) - 1\<bar> < 2 ^ 53 \<and> step (booking (handleBack (mount None))) = of_int 0"
    using z by simp
  with handleBack_no_lower_bound [of "handleBack (mount None)"]
  have "step (booking (handleBack (handleBack (mount None)))) = of_int (0 - 1)" by blast
  with s z show ?thesis by simp
qed

section \<open>Mounting\<close>

text \<open>
  C10. When the wizard mounts booking.hours is the 3 of the initial state, whoever is logged
  in, although the home counters start at 2 bedrooms, 1 bathroom, 1 kitchen and 1 living area,
  whose estimate is 2.5 hours. The estimate reaches the booking only through a counter
  mutation: one bedroom more and one less restores the initial counts and leaves 2.5 hours.
\<close>

theorem mount_hours_not_estimate:
  "hours (booking (mount currentUser)) = 3 \<and>
   homeEstimator (mount currentUser) = \<lparr> bedrooms = 2, bathrooms = 1, kitchen = 1, living = 1 \<rparr> \<and>
   homeHours (homeEstimator (mount currentUser)) = 5 / 2 \<and>
   homeEstimator (handleHomeChange Bedrooms (- 1) (handleHomeChange Bedrooms 1 (mount currentUser)))
     = homeEstimator (mount currentUser) \<and>
   hours (booking (handleHomeChange Bedrooms (- 1) (handleHomeChange Bedrooms 1 (mount currentUser))))
     = 5 / 2"
proof -
  have e: "homeEstimator (handleHomeChange Bedrooms (- 1) (handleHomeChange Bedrooms 1 (mount currentUser)))
     = \<lparr> bedrooms = 2, bathrooms = 1, kitchen = 1, living = 1 \<rparr>"
    by (simp add: handleHomeChange_estimator Math_max_def)
  show ?thesis
    by (simp only: handleHomeChange_hours e mount_homeEstimator mount_booking_hours
        homeHours_defaults simp_thms)
qed

theorem mount_hours_not_estimate_witness:
  "hours (booking (mount None)) = 3 \<and> homeHours (homeEstimator (mount None)) = 5 / 2 \<and>
   hours (booking (mount None)) \<noteq> homeHours (homeEstimator (mount None))"
  using mount_hours_not_estimate [of None] by simp

section \<open>Availability\<close>

lemma settleFetch_fulfilled:
  "i < length (inFlight w) \<Longrightarrow>
   availableSlots (settleFetch i (Fulfilled slots) w) = slots \<and>
   isLoadingSlots (settleFetch i (Fulfilled slots) w) = False \<and>
   console (settleFetch i (Fulfilled slots) w) = console w \<and>
   inFlight (settleFetch i (Fulfilled slots) w) = take i (inFlight w) @ drop (Suc i) (inFlight w)"
  by (simp add: settleFetch_def Let_def)

lemma settleFetch_rejected:
  "i < length (inFlight w) \<Longrightarrow>
   availableSlots (settleFetch i (Rejected err) w) = availableSlots w \<and>
   isLoadingSlots (settleFetch i (Rejected err) w) = False \<and>
   console (settleFetch i (Rejected err) w) = console w @ [(''Failed to load slots'', err)] \<and>
   inFlight (settleFetch i (Rejected err) w) = take i (inFlight w) @ drop (Suc i) (inFlight w)"
  by (simp add: settleFetch_def Let_def)

lemma dispatch_Settled: "dispatch (Settled i r) w = settleFetch i r w"
  by (simp add: dispatch_def rerender_def)

lemma fetchSlotsEffect_inFlight:
  "inFlight (fetchSlotsEffect w) =
     (if date_and_hours (booking w)
      then inFlight w @ [\<lparr> fetch_date = the (date (booking w)), fetch_hours = hours (booking w),
                            duration = Math_ceil (hours (booking w)) \<rparr>]
      else inFlight w)"
  by (simp add: fetchSlotsEffect_def Let_def)

lemma fetchSlotsEffect_loading:
  "isLoadingSlots (fetchSlotsEffect w) = (if date_and_hours (booking w) then True else isLoadingSlots w)"
  by (simp add: fetchSlotsEffect_def Let_def)

lemmas scenario_defs = service_chosen_def date_chosen_def two_in_flight_def slots_loaded_def
  slot_chosen_def mount_def prefill_def initialWizard_def INITIAL_STATE_def

lemma date_chosen_eval:
  "booking date_chosen = INITIAL_STATE\<lparr>service := Some ''standard'', date := Some ''2026-11-09''\<rparr>"
  "inFlight date_chosen = [\<lparr> fetch_date = ''2026-11-09'', fetch_hours = 3, duration = 3 \<rparr>]"
  "availableSlots date_chosen = []"
  "isLoadingSlots date_chosen = True"
  "console date_chosen = []"
  by (simp_all add: scenario_defs rerender_def fetchSlotsEffect_def date_and_hours_def
      Let_def Math_ceil_def)

lemma two_in_flight_eval:
  "booking two_in_flight =
     INITIAL_STATE\<lparr>service := Some ''standard'', date := Some ''2026-11-09'', hours := 4\<rparr>"
  "inFlight two_in_flight =
     [\<lparr> fetch_date = ''2026-11-09'', fetch_hours = 3, duration = 3 \<rparr>,
      \<lparr> fetch_date = ''2026-11-09'', fetch_hours = 4, duration = 4 \<rparr>]"
  "availableSlots two_in_flight = []"
  "console two_in_flight = []"
  by (simp_all add: two_in_flight_def dispatch_def sliderChange_def rerender_def
      fetchSlotsEffect_inFlight date_and_hours_def date_chosen_eval Math_ceil_def
      INITIAL_STATE_def)

text \<open>
  C1, as the code has it. The effect keeps no handle on a call and \<^verbatim>\<open>fetchSlots\<close> compares
  nothing when it resumes: every fulfilled call replaces the slot list with its slots,
  whether or not its date and hours are still those of the booking. Of two calls in flight,
  the earlier one settling after the later one leaves its own slots in the list.
\<close>

theorem last_settled_fetch_wins:
  assumes "i < j" and "j < length (inFlight w)"
  shows "availableSlots (dispatch (Settled i (Fulfilled slotsA))
           (dispatch (Settled j (Fulfilled slotsB)) w)) = slotsA \<and>
         booking (dispatch (Settled i (Fulfilled slotsA))
           (dispatch (Settled j (Fulfilled slotsB)) w)) = booking w"
proof -
  have "i < length (inFlight (settleFetch j (Fulfilled slotsB) w))"
    using assms by (simp add: settleFetch_fulfilled)
  then show ?thesis
    by (simp add: dispatch_Settled settleFetch_fulfilled)
qed

theorem last_settled_fetch_wins_witness:
  "availableSlots (dispatch (Settled 0 (Fulfilled [slot13]))
     (dispatch (Settled 1 (Fulfilled [slot9])) two_in_flight)) = [slot13]"
proof -
  have "(0::nat) < 1" "1 < length (inFlight two_in_flight)"
    by (simp_all add: two_in_flight_eval)
  from last_settled_fetch_wins [OF this] show ?thesis by blast
qed

text \<open>
  C1 as stated fails. The call for 3 hours is issued first, the call for 4 hours second; the
  answer for 4 hours arrives first, the answer for 3 hours last. The booking says 4 hours and
  the slot list holds the slots answered for 3 hours.
\<close>

theorem stale_fetch_overwrites_counterexample:
  "inFlight two_in_flight =
     [\<lparr> fetch_date = ''2026-11-09'', fetch_hours = 3, duration = 3 \<rparr>,
      \<lparr> fetch_date = ''2026-11-09'', fetch_hours = 4, duration = 4 \<rparr>] \<and>
   hours (booking (dispatch (Settled 0 (Fulfilled [slot9]))
     (dispatch (Settled 1 (Fulfilled [slot13])) two_in_flight))) = 4 \<and>
   availableSlots (dispatch (Settled 0 (Fulfilled [slot9]))
     (dispatch (Settled 1 (Fulfilled [slot13])) two_in_flight)) = [slot9] \<and>
   [slot9] \<noteq> [slot13]"
  by (simp add: two_in_flight_eval dispatch_Settled settleFetch_def Let_def INITIAL_STATE_def
      slot9_def slot13_def)

lemma handler_timeSlot: "timeSlot (booking (handler e w)) = timeSlot (booking w)"
  by (cases e)
    (simp_all add: handleNext_def handleBack_def handleHomeChange_def handleOfficeChange_def
      sliderChange_def Let_def)

lemma rerender_slots:
  "hours (booking new) \<noteq> hours (booking old) \<Longrightarrow> availableSlots (rerender old new) = []"
  by (simp add: rerender_def)

lemma slots_loaded_eval:
  "booking slots_loaded = booking date_chosen"
  "availableSlots slots_loaded = [slot9, slot13]"
  "inFlight slots_loaded = []"
  by (simp_all add: slots_loaded_def dispatch_Settled settleFetch_def Let_def date_chosen_eval)

lemma slot_chosen_eval:
  "booking slot_chosen = (booking date_chosen)\<lparr>timeSlot := Some slot9\<rparr>"
  "availableSlots slot_chosen = [slot9, slot13]"
  "inFlight slot_chosen = []"
  by (simp_all add: slot_chosen_def rerender_def slots_loaded_eval)

text \<open>
  C3, as the code has it. None of the handlers and effects the source shows writes
  booking.timeSlot: every event leaves it as it was. A change of hours, by an estimator or the slider, empties
  the slot list only, so the slot chosen before stays in the booking while the list it came
  from is gone. The effect that runs when the date changes leaves the booking alone as well;
  the date picker itself is elided in the source.
\<close>

theorem timeSlot_survives_change:
  "timeSlot (booking (dispatch e w)) = timeSlot (booking w) \<and>
   (hours (booking (dispatch e w)) \<noteq> hours (booking w) \<longrightarrow> availableSlots (dispatch e w) = []) \<and>
   booking (fetchSlotsEffect w) = booking w"
  by (simp add: dispatch_def handler_timeSlot rerender_slots)

theorem timeSlot_survives_change_witness:
  "hours (booking (dispatch (HomeChange Bedrooms 1) slot_chosen)) = 5 / 2 \<and>
   timeSlot (booking (dispatch (HomeChange Bedrooms 1) slot_chosen)) = Some slot9 \<and>
   availableSlots (dispatch (HomeChange Bedrooms 1) slot_chosen) = []"
proof -
  have e: "homeEstimator slot_chosen = \<lparr> bedrooms = 2, bathrooms = 1, kitchen = 1, living = 1 \<rparr>"
    by (simp add: slot_chosen_def slots_loaded_def dispatch_Settled date_chosen_def
        service_chosen_def)
  have "homeHours \<lparr> bedrooms = 3, bathrooms = 1, kitchen = 1, living = 1 \<rparr> = 5 / 2"
    unfolding homeHours_def roundUpToHalf_def Let_def by (simp add: js_eval dbl_eval)
  then have h: "hours (booking (dispatch (HomeChange Bedrooms 1) slot_chosen)) = 5 / 2"
    by (simp add: dispatch_def handleHomeChange_hours handleHomeChange_estimator e Math_max_def)
  have "hours (booking slot_chosen) = 3"
    by (simp add: slot_chosen_eval date_chosen_eval INITIAL_STATE_def)
  with timeSlot_survives_change [of "HomeChange Bedrooms 1" slot_chosen] h
  show ?thesis by (simp add: slot_chosen_eval)
qed

text \<open>
  C3 as stated fails. The customer has chosen the 9 o'clock slot from the list fetched for
  3 hours and then moves the slider to 5: the hours change, the slot list is emptied, and the
  booking still holds the 9 o'clock slot, which is in no list fetched for 5 hours.
\<close>

theorem timeSlot_not_cleared_counterexample:
  "timeSlot (booking slot_chosen) = Some slot9 \<and>
   availableSlots slot_chosen = [slot9, slot13] \<and>
   hours (booking slot_chosen) = 3 \<and>
   hours (booking (dispatch (Slider 5) slot_chosen)) = 5 \<and>
   timeSlot (booking (dispatch (Slider 5) slot_chosen)) = Some slot9 \<and>
   availableSlots (dispatch (Slider 5) slot_chosen) = [] \<and>
   timeSlot (booking (dispatch (Settled 0 (Fulfilled [slot13])) (dispatch (Slider 5) slot_chosen)))
     = Some slot9 \<and>
   availableSlots (dispatch (Settled 0 (Fulfilled [slot13])) (dispatch (Slider 5) slot_chosen))
     = [slot13] \<and>
   slot9 \<noteq> slot13"
  by (simp add: dispatch_def sliderChange_def rerender_def slot_chosen_eval date_chosen_eval
      INITIAL_STATE_def settleFetch_def fetchSlotsEffect_inFlight date_and_hours_def Let_def
      slot9_def slot13_def)

lemma handler_inFlight: "set (inFlight (handler e w)) \<subseteq> set (inFlight w)"
proof (cases e)
  case (Settled i r)
  have "set (take i (inFlight w) @ drop (Suc i) (inFlight w)) \<subseteq> set (inFlight w)"
    using set_take_subset [of i "inFlight w"] set_drop_subset [of "Suc i" "inFlight w"] by simp
  then show ?thesis using Settled
    by (simp add: settleFetch_def Let_def split: Outcome.split)
qed (simp_all add: handleNext_def handleBack_def handleHomeChange_def handleOfficeChange_def
      sliderChange_def Let_def)

lemma rerender_inFlight:
  "p \<in> set (inFlight (rerender old new)) \<Longrightarrow>
   p \<in> set (inFlight new) \<or> duration p = Math_ceil (fetch_hours p)"
  by (auto simp: rerender_def fetchSlotsEffect_inFlight split: if_splits)

lemma reachable_durations:
  "reachable SERVICE_OPTIONS currentUser w \<Longrightarrow>
   \<forall>p \<in> set (inFlight w). duration p = Math_ceil (fetch_hours p)"
proof (induction rule: reachable.induct)
  case mounted
  show ?case
    by (auto simp: mount_def fetchSlotsEffect_inFlight initialWizard_def split: if_splits)
next
  case (event w e)
  show ?case
  proof
    fix p assume "p \<in> set (inFlight (dispatch e w))"
    then have "p \<in> set (inFlight (handler e w)) \<or> duration p = Math_ceil (fetch_hours p)"
      unfolding dispatch_def by (rule rerender_inFlight)
    then show "duration p = Math_ceil (fetch_hours p)"
      using handler_inFlight [of e w] event.IH by blast
  qed
next
  case (elided w b)
  show ?case
  proof
    fix p assume "p \<in> set (inFlight (rerender w (w\<lparr>booking := b\<rparr>)))"
    then have "p \<in> set (inFlight (w\<lparr>booking := b\<rparr>)) \<or> duration p = Math_ceil (fetch_hours p)"
      by (rule rerender_inFlight)
    then show "duration p = Math_ceil (fetch_hours p)" using elided.IH by auto
  qed
qed

lemma handler_slots:
  "\<not> fulfils e \<Longrightarrow> availableSlots (handler e w) = availableSlots w"
proof (cases e)
  case (Settled i r)
  assume "\<not> fulfils e"
  then obtain err where "r = Rejected err" using Settled by (cases r) simp_all
  then show ?thesis using Settled by (simp add: settleFetch_def Let_def)
qed (simp_all add: handleNext_def handleBack_def handleHomeChange_def handleOfficeChange_def
      sliderChange_def Let_def)

lemma rerender_empty:
  "availableSlots new = [] \<Longrightarrow> availableSlots (rerender old new) = []"
  by (simp add: rerender_def)

lemma dispatch_empty:
  "availableSlots w = [] \<Longrightarrow> \<not> fulfils e \<Longrightarrow> availableSlots (dispatch e w) = []"
  by (simp add: dispatch_def rerender_empty handler_slots)

lemma run_empty:
  "availableSlots w = [] \<Longrightarrow> list_all (\<lambda>e. \<not> fulfils e) es \<Longrightarrow>
   availableSlots (run es w) = []"
  by (induction es arbitrary: w) (simp_all add: dispatch_empty)

text \<open>
  C8, as the code has it. A call the effect issues carries \<^verbatim>\<open>Math.ceil\<close> of the hours as its
  duration, so every call in flight in a reachable state does. When a call is rejected the
  handler prints the failure, lowers the loading flag and touches neither the slot list nor
  the booking, and the wizard goes on from the state it returns. The list is empty then
  whenever no call was fulfilled since the effect last ran: the effect empties the list, and
  every step but a fulfilment, the rejection included, keeps an empty list empty. When a call
  is fulfilled its slots replace the list and the loading flag is lowered.
\<close>

theorem fetch_outcomes:
  "(date_and_hours (booking w) \<longrightarrow>
      inFlight (fetchSlotsEffect w) =
        inFlight w @ [\<lparr> fetch_date = the (date (booking w)), fetch_hours = hours (booking w),
                         duration = Math_ceil (hours (booking w)) \<rparr>] \<and>
      isLoadingSlots (fetchSlotsEffect w) \<and>
      availableSlots (dispatch (Settled (length (inFlight w)) (Rejected err)) (fetchSlotsEffect w)) = []) \<and>
   (\<not> date_and_hours (booking w) \<longrightarrow> inFlight (fetchSlotsEffect w) = inFlight w) \<and>
   (reachable SERVICE_OPTIONS currentUser w \<longrightarrow>
      (\<forall>p \<in> set (inFlight w). duration p = Math_ceil (fetch_hours p))) \<and>
   (i < length (inFlight w) \<longrightarrow>
      console (dispatch (Settled i (Rejected err)) w) = console w @ [(''Failed to load slots'', err)] \<and>
      availableSlots (dispatch (Settled i (Rejected err)) w) = availableSlots w \<and>
      isLoadingSlots (dispatch (Settled i (Rejected err)) w) = False \<and>
      booking (dispatch (Settled i (Rejected err)) w) = booking w \<and>
      availableSlots (dispatch (Settled i (Fulfilled slots)) w) = slots \<and>
      isLoadingSlots (dispatch (Settled i (Fulfilled slots)) w) = False) \<and>
   availableSlots (fetchSlotsEffect w) = [] \<and>
   (availableSlots w = [] \<and> \<not> fulfils e \<longrightarrow> availableSlots (dispatch e w) = []) \<and>
   (availableSlots w = [] \<longrightarrow> availableSlots (rerender w (w\<lparr>booking := b\<rparr>)) = []) \<and>
   (list_all (\<lambda>e. \<not> fulfils e) es \<longrightarrow>
      availableSlots (run es (fetchSlotsEffect w)) = [] \<and>
      availableSlots (dispatch (Settled j (Rejected err)) (run es (fetchSlotsEffect w))) = [])"
proof -
  have 1: "availableSlots (run es (fetchSlotsEffect w)) = []"
    if "list_all (\<lambda>e. \<not> fulfils e) es"
    using that by (intro run_empty) simp_all
  have 2: "availableSlots (dispatch (Settled j (Rejected err)) (run es (fetchSlotsEffect w))) = []"
    if "list_all (\<lambda>e. \<not> fulfils e) es"
    using 1 [OF that] by (intro dispatch_empty) simp_all
  have 3: "availableSlots (rerender w (w\<lparr>booking := b\<rparr>)) = []" if "availableSlots w = []"
    using that by (intro rerender_empty) simp
  show ?thesis
    using reachable_durations [of SERVICE_OPTIONS currentUser w] 1 2 3 dispatch_empty [of w e]
    by (simp add: dispatch_Settled settleFetch_fulfilled settleFetch_rejected
        fetchSlotsEffect_inFlight fetchSlotsEffect_loading)
qed

text \<open>The single call of \<open>date_chosen\<close>, sent for 3 hours, is rejected. And with the calls for
  3 and for 4 hours in flight, the slider goes on to 5 and the call for 4 hours is rejected
  while none was fulfilled: the list is empty.\<close>

theorem fetch_outcomes_witness:
  "inFlight date_chosen = [\<lparr> fetch_date = ''2026-11-09'', fetch_hours = 3, duration = 3 \<rparr>] \<and>
   console (dispatch (Settled 0 (Rejected ''offline'')) date_chosen)
     = [(''Failed to load slots'', ''offline'')] \<and>
   availableSlots (dispatch (Settled 0 (Rejected ''offline'')) date_chosen) = [] \<and>
   isLoadingSlots (dispatch (Settled 0 (Rejected ''offline'')) date_chosen) = False \<and>
   availableSlots (dispatch (Settled 0 (Fulfilled [slot9])) date_chosen) = [slot9] \<and>
   availableSlots (dispatch (Settled 1 (Rejected ''offline''))
     (run [Slider 4, Slider 5] (fetchSlotsEffect date_chosen))) = []"
proof -
  have "0 < length (inFlight date_chosen)" by (simp add: date_chosen_eval)
  with fetch_outcomes [of date_chosen "''offline''" catalog None 0 "[slot9]"] have a:
    "console (dispatch (Settled 0 (Rejected ''offline'')) date_chosen)
       = [(''Failed to load slots'', ''offline'')]"
    "availableSlots (dispatch (Settled 0 (Rejected ''offline'')) date_chosen) = []"
    "isLoadingSlots (dispatch (Settled 0 (Rejected ''offline'')) date_chosen) = False"
    "availableSlots (dispatch (Settled 0 (Fulfilled [slot9])) date_chosen) = [slot9]"
    by (simp_all add: date_chosen_eval)
  have "list_all (\<lambda>e. \<not> fulfils e) [Slider 4, Slider 5]" by simp
  with fetch_outcomes [of date_chosen "''offline''" catalog None 0 "[slot9]" Next INITIAL_STATE
      "[Slider 4, Slider 5]" 1]
  have b: "availableSlots (dispatch (Settled 1 (Rejected ''offline''))
     (run [Slider 4, Slider 5] (fetchSlotsEffect date_chosen))) = []" by blast
  from a b show ?thesis by (simp add: date_chosen_eval)
qed

text \<open>
  C8 as stated fails in one part. Two calls are in flight, for 3 and for 4 hours; the first is
  answered with a slot, then the second is rejected. The failure is printed and the loading
  flag lowered, but the slot list is not empty: it holds the slot answered for 3 hours.
\<close>

theorem failed_fetch_list_not_empty_counterexample:
  "inFlight two_in_flight =
     [\<lparr> fetch_date = ''2026-11-09'', fetch_hours = 3, duration = 3 \<rparr>,
      \<lparr> fetch_date = ''2026-11-09'', fetch_hours = 4, duration = 4 \<rparr>] \<and>
   availableSlots two_in_flight = [] \<and>
   inFlight (dispatch (Settled 0 (Fulfilled [slot9])) two_in_flight) =
     [\<lparr> fetch_date = ''2026-11-09'', fetch_hours = 4, duration = 4 \<rparr>] \<and>
   console (dispatch (Settled 0 (Rejected ''offline''))
     (dispatch (Settled 0 (Fulfilled [slot9])) two_in_flight))
     = [(''Failed to load slots'', ''offline'')] \<and>
   availableSlots (dispatch (Settled 0 (Rejected ''offline''))
     (dispatch (Settled 0 (Fulfilled [slot9])) two_in_flight)) = [slot9] \<and>
   [slot9] \<noteq> []"
  by (simp add: two_in_flight_eval dispatch_Settled settleFetch_def Let_def)

section \<open>The range of the hours\<close>

lemma multiple_of_half_iff: "multiple_of_half h \<longleftrightarrow> (\<exists>k::int. h = of_int k / 2)"
proof
  assume "multiple_of_half h"
  then have e: "of_int \<lfloor>h * 2\<rfloor> = h * 2" unfolding multiple_of_half_def .
  have "h = of_int \<lfloor>h * 2\<rfloor> / 2" unfolding e by simp
  then show "\<exists>k::int. h = of_int k / 2" ..
next
  assume "\<exists>k::int. h = of_int k / 2"
  then obtain k :: int where "h = of_int k / 2" ..
  then have "h * 2 = of_int k" by simp
  then show "multiple_of_half h" unfolding multiple_of_half_def by simp
qed

lemma multiple_of_half_of_int: "multiple_of_half (of_int k)"
proof -
  have "(of_int k :: rat) = of_int (2 * k) / 2" by simp
  then show ?thesis unfolding multiple_of_half_iff by blast
qed

lemma to_double_half:
  "multiple_of_half (to_double (of_int n / 2))"
proof (cases "\<bar>n\<bar> < 2 ^ 53")
  case True
  have "(of_int n / 2 :: rat) = of_int n * pow2 (- 1)" by (simp add: pow2_def)
  then have "to_double (of_int n / 2) = of_int n / 2"
    using True to_double_exact [of "of_int n / 2" n "- 1"] by simp
  then show ?thesis unfolding multiple_of_half_iff by blast
next
  case False
  define x :: rat where "x = of_int n / 2"
  define b where "b = binexp \<bar>x\<bar>"
  have "(2 ^ 53 :: int) \<le> \<bar>n\<bar>" using False by simp
  then have "(of_int (2 ^ 53) :: rat) \<le> of_int \<bar>n\<bar>" by (simp only: of_int_le_iff)
  then have big: "pow2 52 \<le> \<bar>x\<bar>" by (simp add: x_def pow2_def)
  then have x0: "0 < \<bar>x\<bar>" using pow2_pos [of 52] by linarith
  from binexp_bounds [OF x0] have "\<bar>x\<bar> < pow2 (b + 1)" by (simp add: b_def)
  then have "pow2 52 < pow2 (b + 1)" using big by linarith
  then have b52: "52 \<le> b" using pow2_mono [of "b + 1" 52] by (cases "52 < b + 1") auto
  then have "max b (- 1022) - 52 = int (nat (b - 52))" by simp
  then have q: "pow2 (max b (- 1022) - 52) = of_int (2 ^ nat (b - 52))"
    using pow2_nat [of "b - 52"] b52 by simp
  have xn: "x \<noteq> 0" using x0 by simp
  define s :: int where "s = (if 0 < x then 1 else - 1)"
  have sg: "sgn x = of_int s" using xn by (simp add: s_def sgn_if)
  define k where "k = round_half_even (\<bar>x\<bar> / pow2 (max b (- 1022) - 52))"
  have "to_double x = sgn x * of_int k * pow2 (max b (- 1022) - 52)"
    using xn by (simp add: to_double_def Let_def b_def k_def)
  also have "\<dots> = of_int (s * k * 2 ^ nat (b - 52))" by (simp add: sg q)
  finally show ?thesis unfolding x_def using multiple_of_half_of_int by metis
qed

lemma multiple_of_half_max:
  "multiple_of_half a \<Longrightarrow> multiple_of_half b \<Longrightarrow> multiple_of_half (Math_max a b)"
  by (simp add: Math_max_def max_def)

lemma roundUpToHalf_half: "multiple_of_half (roundUpToHalf x)"
proof -
  have "roundUpToHalf x = to_double (of_int \<lceil>js_mul x 2\<rceil> / 2)"
    by (simp add: roundUpToHalf_def js_div_def Math_ceil_def)
  then show ?thesis by (simp add: to_double_half)
qed

lemma multiple_of_half_numeral [simp]: "multiple_of_half 2" "multiple_of_half 3"
  by (simp_all add: multiple_of_half_def)

lemma homeHours_range: "2 \<le> homeHours c \<and> multiple_of_half (homeHours c)"
  unfolding homeHours_def Let_def
  by (simp add: multiple_of_half_max roundUpToHalf_half) (simp add: Math_max_def)

lemma officeHours_range: "3 \<le> officeHours c \<and> multiple_of_half (officeHours c)"
  unfolding officeHours_def Let_def
  by (simp add: multiple_of_half_max roundUpToHalf_half) (simp add: Math_max_def)

lemma slider_value_range:
  assumes "slider_value v"
  shows "2 \<le> v \<and> v \<le> 10 \<and> multiple_of_half v"
proof -
  from assms obtain k :: nat where k: "k < 17" "v = 2 + of_nat k / 2"
    by (auto simp: slider_value_def)
  have "v = of_int (4 + int k) / 2" by (simp add: k)
  then have "multiple_of_half v" unfolding multiple_of_half_iff by blast
  moreover have "(of_nat k :: rat) \<le> 16" using k(1) by simp
  ultimately show ?thesis by (simp add: k)
qed

lemma handler_hours:
  "enabled SERVICE_OPTIONS e w \<Longrightarrow> 2 \<le> hours (booking w) \<and> multiple_of_half (hours (booking w)) \<Longrightarrow>
   2 \<le> hours (booking (handler e w)) \<and> multiple_of_half (hours (booking (handler e w)))"
proof (cases e)
  case (HomeChange f d)
  then show ?thesis using homeHours_range by (simp add: handleHomeChange_hours)
next
  case (OfficeChange f d)
  have "3 \<le> officeHours c \<Longrightarrow> 2 \<le> officeHours c" for c by simp
  with OfficeChange show ?thesis using officeHours_range by (simp add: handleOfficeChange_hours)
next
  case (Slider v)
  assume "enabled SERVICE_OPTIONS e w"
  then have "slider_value v" using Slider by simp
  from slider_value_range [OF this] Slider show ?thesis by (simp add: sliderChange_def)
qed (simp_all add: handleNext_def handleBack_def)

lemma reachable_hours:
  "reachable SERVICE_OPTIONS currentUser w \<Longrightarrow>
   2 \<le> hours (booking w) \<and> multiple_of_half (hours (booking w))"
proof (induction rule: reachable.induct)
  case mounted
  show ?case by simp
next
  case (event w e)
  from handler_hours [OF event.hyps(2) event.IH] show ?case by (simp add: dispatch_def)
next
  case (elided w b)
  then show ?case by simp
qed

lemma isOfficeService_service:
  "service b = service b' \<Longrightarrow> isOfficeService SERVICE_OPTIONS b = isOfficeService SERVICE_OPTIONS b'"
  by (simp add: isOfficeService_def currentService_def)

lemma dispatch_HomeChange_service:
  "service (booking (dispatch (HomeChange f d) w)) = service (booking w)"
  by (simp add: dispatch_def handleHomeChange_def Let_def)

lemma dispatch_HomeChange_estimator:
  "homeEstimator (dispatch (HomeChange f d) w) =
     home_set (homeEstimator w) f (Math_max 0 (js_add (home_get (homeEstimator w) f) d))"
  by (simp add: dispatch_def handleHomeChange_estimator)

lemma dispatch_HomeChange_hours:
  "hours (booking (dispatch (HomeChange f d) w)) = homeHours (homeEstimator (dispatch (HomeChange f d) w))"
  by (simp add: dispatch_def handleHomeChange_hours)

lemma run_snoc: "run (es @ [e]) w = dispatch e (run es w)"
  by (induction es arbitrary: w) simp_all

lemma replicate_Suc_snoc: "replicate (Suc n) x = replicate n x @ [x]"
  by (simp add: replicate_append_same)

lemma clicks_reachable:
  "reachable SERVICE_OPTIONS currentUser w \<Longrightarrow> \<not> isOfficeService SERVICE_OPTIONS (booking w) \<Longrightarrow>
   reachable SERVICE_OPTIONS currentUser (run (replicate n (HomeChange f 1)) w) \<and>
   \<not> isOfficeService SERVICE_OPTIONS (booking (run (replicate n (HomeChange f 1)) w))"
proof (induction n)
  case 0
  then show ?case by simp
next
  case (Suc n)
  let ?w = "run (replicate n (HomeChange f 1)) w"
  from Suc have r: "reachable SERVICE_OPTIONS currentUser ?w"
    and o: "\<not> isOfficeService SERVICE_OPTIONS (booking ?w)" by simp_all
  have "enabled SERVICE_OPTIONS (HomeChange f 1) ?w" using o by simp
  with r have "reachable SERVICE_OPTIONS currentUser (dispatch (HomeChange f 1) ?w)"
    by (rule reachable.event)
  moreover have "\<not> isOfficeService SERVICE_OPTIONS (booking (dispatch (HomeChange f 1) ?w))"
    using o isOfficeService_service [OF dispatch_HomeChange_service, of SERVICE_OPTIONS f 1 ?w]
    by simp
  ultimately show ?case by (simp only: replicate_Suc_snoc run_snoc) simp
qed

lemma js_add_of_nat_1:
  assumes "n < 2 ^ 52"
  shows "js_add (of_nat n) 1 = of_nat (Suc n)"
proof -
  have "\<bar>int (Suc n)\<bar> < 2 ^ 53" using assms by (simp add: nat_less_iff zless_nat_eq_int_zless)
  from to_double_of_int [OF this] show ?thesis by (simp add: js_add_def add.commute)
qed

lemma kitchen_clicks:
  "kitchen (homeEstimator w) = of_nat k \<Longrightarrow> k + n < 2 ^ 52 \<Longrightarrow>
   homeEstimator (run (replicate n (HomeChange Kitchen 1)) w) =
     (homeEstimator w)\<lparr>kitchen := of_nat (k + n)\<rparr>"
proof (induction n)
  case 0
  then show ?case by simp
next
  case (Suc n)
  let ?w = "run (replicate n (HomeChange Kitchen 1)) w"
  from Suc have e: "homeEstimator ?w = (homeEstimator w)\<lparr>kitchen := of_nat (k + n)\<rparr>" by simp
  have "k + n < 2 ^ 52" using Suc.prems by simp
  from js_add_of_nat_1 [OF this] e
  have "homeEstimator (dispatch (HomeChange Kitchen 1) ?w) =
      (homeEstimator w)\<lparr>kitchen := of_nat (k + Suc n)\<rparr>"
    by (simp add: dispatch_HomeChange_estimator Math_max_def)
  then show ?case by (simp only: replicate_Suc_snoc run_snoc)
qed

lemma service_chosen_eval:
  "booking service_chosen = INITIAL_STATE\<lparr>service := Some ''standard''\<rparr>"
  "homeEstimator service_chosen = \<lparr> bedrooms = 2, bathrooms = 1, kitchen = 1, living = 1 \<rparr>"
  by (simp_all add: service_chosen_def rerender_def mount_def prefill_def initialWizard_def
      fetchSlotsEffect_def date_and_hours_def Let_def INITIAL_STATE_def)

lemma office_chosen_eval:
  "booking office_chosen = INITIAL_STATE\<lparr>service := Some ''office''\<rparr>"
  by (simp add: office_chosen_def rerender_def mount_def prefill_def initialWizard_def
      fetchSlotsEffect_def date_and_hours_def Let_def INITIAL_STATE_def)

lemma service_chosen_reachable: "reachable catalog None service_chosen"
  unfolding service_chosen_def by (rule reachable.elided [OF reachable.mounted]) simp

lemma office_chosen_reachable: "reachable catalog None office_chosen"
  unfolding office_chosen_def by (rule reachable.elided [OF reachable.mounted]) simp

lemma catalog_office:
  "\<not> isOfficeService catalog (INITIAL_STATE\<lparr>service := Some ''standard''\<rparr>)"
  "isOfficeService catalog (INITIAL_STATE\<lparr>service := Some ''office''\<rparr>)"
  "isOfficeService catalog (INITIAL_STATE\<lparr>service := Some ''office'', hours := 2\<rparr>)"
  by (simp_all add: isOfficeService_def currentService_def catalog_def INITIAL_STATE_def)

text \<open>
  C2, as the code has it. In every reachable state booking.hours is at least 2 and a multiple
  of 0.5. The initial state writes 3; the office estimator writes at least 3; the slider writes
  a value between 2 and 10; the home estimator writes at least 2. No writer bounds an estimate
  from above, and the slider does not look at the service.
\<close>

theorem hours_range:
  assumes "reachable SERVICE_OPTIONS currentUser w"
  shows "2 \<le> hours (booking w) \<and> multiple_of_half (hours (booking w)) \<and>
         hours (booking (mount currentUser)) = 3 \<and>
         2 \<le> hours (booking (dispatch (HomeChange hf delta) w)) \<and>
         3 \<le> hours (booking (dispatch (OfficeChange f delta) w)) \<and>
         (slider_value v \<longrightarrow>
            2 \<le> hours (booking (dispatch (Slider v) w)) \<and>
            hours (booking (dispatch (Slider v) w)) \<le> 10)"
  using reachable_hours [OF assms] homeHours_range officeHours_range slider_value_range
  by (simp add: dispatch_def handleHomeChange_hours handleOfficeChange_hours sliderChange_def)

text \<open>The office service chosen, one more washroom counted, and then the slider moved to 7.5.\<close>

theorem hours_range_witness:
  "3 \<le> hours (booking (dispatch (OfficeChange Washrooms 1) office_chosen)) \<and>
   multiple_of_half (hours (booking (dispatch (OfficeChange Washrooms 1) office_chosen))) \<and>
   hours (booking (dispatch (Slider (15 / 2)) office_chosen)) = 15 / 2"
proof -
  have e: "enabled catalog (OfficeChange Washrooms 1) office_chosen"
    by (simp add: office_chosen_eval catalog_office)
  have s: "slider_value (15 / 2)"
    by (simp add: slider_value_def upt_rec_numeral)
  from hours_range [OF reachable.event [OF office_chosen_reachable e]]
  have 1: "multiple_of_half (hours (booking (dispatch (OfficeChange Washrooms 1) office_chosen)))"
    by blast
  from hours_range [OF office_chosen_reachable, of Bedrooms 1 Washrooms "15 / 2"] s
  have 2: "3 \<le> hours (booking (dispatch (OfficeChange Washrooms 1) office_chosen))"
    by blast
  have 3: "hours (booking (dispatch (Slider (15 / 2)) office_chosen)) = 15 / 2"
    by (simp add: dispatch_def sliderChange_def)
  from 1 2 3 show ?thesis by blast
qed

text \<open>
  C2 as stated fails on both bounds. With the home service chosen, eleven clicks on the plus
  button of the kitchens leave 12 kitchens and 10.5 hours, above 10. With the office service
  chosen, the slider at its left end leaves 2 hours, below 3.
\<close>

theorem hours_out_of_range_counterexample:
  "reachable catalog None (run (replicate 11 (HomeChange Kitchen 1)) service_chosen) \<and>
   \<not> isOfficeService catalog (booking (run (replicate 11 (HomeChange Kitchen 1)) service_chosen)) \<and>
   hours (booking (run (replicate 11 (HomeChange Kitchen 1)) service_chosen)) = 21 / 2 \<and>
   reachable catalog None (dispatch (Slider 2) office_chosen) \<and>
   isOfficeService catalog (booking (dispatch (Slider 2) office_chosen)) \<and>
   hours (booking (dispatch (Slider 2) office_chosen)) = 2"
proof -
  let ?w = "run (replicate 11 (HomeChange Kitchen 1)) service_chosen"
  have n: "\<not> isOfficeService catalog (booking service_chosen)"
    by (simp add: service_chosen_eval catalog_office)
  from clicks_reachable [OF service_chosen_reachable n, of 11 Kitchen]
  have a: "reachable catalog None ?w" "\<not> isOfficeService catalog (booking ?w)" by simp_all
  have "kitchen (homeEstimator service_chosen) = of_nat 1" by (simp add: service_chosen_eval)
  from kitchen_clicks [OF this, of 11]
  have e: "homeEstimator ?w = \<lparr> bedrooms = 2, bathrooms = 1, kitchen = 12, living = 1 \<rparr>"
    by (simp add: service_chosen_eval)
  have hh: "homeHours \<lparr> bedrooms = 2, bathrooms = 1, kitchen = 12, living = 1 \<rparr> = 21 / 2"
    unfolding homeHours_def roundUpToHalf_def Let_def by (simp add: js_eval dbl_eval)
  have "replicate 11 (HomeChange Kitchen 1) = replicate 10 (HomeChange Kitchen 1) @ [HomeChange Kitchen 1]"
    using replicate_Suc_snoc [of 10 "HomeChange Kitchen 1"] by simp
  then have "?w = dispatch (HomeChange Kitchen 1) (run (replicate 10 (HomeChange Kitchen 1)) service_chosen)"
    by (simp only: run_snoc)
  then have "hours (booking ?w) = homeHours (homeEstimator ?w)"
    by (simp only: dispatch_HomeChange_hours)
  then have b: "hours (booking ?w) = 21 / 2" by (simp only: e hh)
  have "slider_value 2" by (simp add: slider_value_def upt_rec_numeral)
  then have "enabled catalog (Slider 2) office_chosen" by simp
  from reachable.event [OF office_chosen_reachable this]
  have c: "reachable catalog None (dispatch (Slider 2) office_chosen)" .
  have d: "isOfficeService catalog (booking (dispatch (Slider 2) office_chosen))"
    "hours (booking (dispatch (Slider 2) office_chosen)) = 2"
    by (simp_all add: dispatch_def sliderChange_def office_chosen_eval catalog_office)
  from a b c d show ?thesis by blast
qed

section \<open>Rounding in the figures\<close>

lemma lit_values:
  "lit (13 / 100) = 1170935903116329 / 2 ^ 53"
  "lit (113 / 100) = 1272266894732165 / 2 ^ 50"
  "lit (30 / 100) = 5404319552844595 / 2 ^ 54"
  "lit (70 / 100) = 3152519739159347 / 2 ^ 52"
  "lit (3 / 10) = 5404319552844595 / 2 ^ 54"
  "lit (7 / 10) = 3152519739159347 / 2 ^ 52"
  by (simp_all add: js_eval dbl_eval)

lemma to_double_bounds:
  assumes "pow2 (- 1022) \<le> x"
  shows "x * (1 - 1 / 2 ^ 53) \<le> to_double x" and "to_double x \<le> x * (1 + 1 / 2 ^ 53)"
proof -
  have x0: "0 < x" using assms pow2_pos [of "- 1022"] by linarith
  then have "pow2 (- 1022) \<le> \<bar>x\<bar>" using assms by simp
  from to_double_rel_error [OF this] x0
  have "\<bar>to_double x - x\<bar> \<le> x / 2 ^ 53" by simp
  then have "to_double x - x \<le> x / 2 ^ 53" and "- (to_double x - x) \<le> x / 2 ^ 53"
    unfolding abs_le_iff by blast+
  then show "x * (1 - 1 / 2 ^ 53) \<le> to_double x" and "to_double x \<le> x * (1 + 1 / 2 ^ 53)"
    by (simp_all add: algebra_simps)
qed

lemma scale_normal:
  assumes "pow2 (- 1010) \<le> T" and "1 / 8 \<le> c"
  shows "pow2 (- 1022) \<le> T * c"
proof -
  have "pow2 (- 1022) \<le> pow2 (- 1013)" by (rule pow2_mono) simp
  also have "pow2 (- 1013) = pow2 (- 1010) * (1 / 8)"
    using pow2_add [of "- 1010" "- 3"] by (simp add: pow2_def)
  also have "\<dots> \<le> T * c"
    using assms pow2_pos [of "- 1010"] by (intro mult_mono) simp_all
  finally show ?thesis .
qed

lemma deposit_remaining_sum:
  assumes "pow2 (- 1010) \<le> T"
  shows "\<bar>js_add (js_mul T (lit (30 / 100))) (js_mul T (lit (70 / 100))) - T\<bar> \<le> T / 2 ^ 51"
proof -
  define u :: rat where "u = 1 / 2 ^ 53"
  define c3 where "c3 = lit (30 / 100)"
  define c7 where "c7 = lit (70 / 100)"
  define D where "D = to_double (T * c3)"
  define R where "R = to_double (T * c7)"
  define S where "S = to_double (D + R)"
  have c3v: "c3 = 5404319552844595 / 2 ^ 54" and c7v: "c7 = 3152519739159347 / 2 ^ 52"
    by (simp_all add: c3_def c7_def lit_values)
  have T0: "0 < T" using assms pow2_pos [of "- 1010"] by linarith
  have okD: "pow2 (- 1022) \<le> T * c3" by (rule scale_normal [OF assms]) (simp add: c3v)
  have okR: "pow2 (- 1022) \<le> T * c7" by (rule scale_normal [OF assms]) (simp add: c7v)
  from to_double_bounds [OF okD]
  have D_lo: "T * c3 * (1 - u) \<le> D" and D_hi: "D \<le> T * c3 * (1 + u)"
    by (simp_all add: D_def u_def)
  from to_double_bounds [OF okR]
  have R_lo: "T * c7 * (1 - u) \<le> R" and R_hi: "R \<le> T * c7 * (1 + u)"
    by (simp_all add: R_def u_def)
  have sum_lo: "T * ((c3 + c7) * (1 - u)) \<le> D + R"
    using D_lo R_lo by (simp add: algebra_simps)
  have sum_hi: "D + R \<le> T * ((c3 + c7) * (1 + u))"
    using D_hi R_hi by (simp add: algebra_simps)
  have "pow2 (- 1022) \<le> T * ((c3 + c7) * (1 - u))"
    by (rule scale_normal [OF assms]) (simp add: c3v c7v u_def)
  then have okS: "pow2 (- 1022) \<le> D + R" using sum_lo by linarith
  from to_double_bounds [OF okS]
  have S_lo: "(D + R) * (1 - u) \<le> S" and S_hi: "S \<le> (D + R) * (1 + u)"
    by (simp_all add: S_def u_def)
  have u1: "0 \<le> 1 - u" "0 \<le> 1 + u" by (simp_all add: u_def)
  have "S \<le> (D + R) * (1 + u)" by (rule S_hi)
  also have "\<dots> \<le> T * ((c3 + c7) * (1 + u)) * (1 + u)"
    using sum_hi u1 by (intro mult_right_mono)
  also have "\<dots> = T * ((c3 + c7) * (1 + u) * (1 + u))" by simp
  also have "\<dots> \<le> T * (1 + 1 / 2 ^ 51)"
    using T0 by (intro mult_left_mono) (simp_all add: c3v c7v u_def)
  finally have hi: "S \<le> T * (1 + 1 / 2 ^ 51)" .
  have "T * (1 - 1 / 2 ^ 51) \<le> T * ((c3 + c7) * (1 - u) * (1 - u))"
    using T0 by (intro mult_left_mono) (simp_all add: c3v c7v u_def)
  also have "\<dots> = T * ((c3 + c7) * (1 - u)) * (1 - u)" by simp
  also have "\<dots> \<le> (D + R) * (1 - u)"
    using sum_lo u1 by (intro mult_right_mono)
  also have "\<dots> \<le> S" by (rule S_lo)
  finally have lo: "T * (1 - 1 / 2 ^ 51) \<le> S" .
  have "S - T \<le> T / 2 ^ 51" and "- (S - T) \<le> T / 2 ^ 51"
    using hi lo by (simp_all add: algebra_simps)
  then have "\<bar>S - T\<bar> \<le> T / 2 ^ 51" by (rule abs_leI)
  then show ?thesis
    by (simp add: S_def D_def R_def c3_def c7_def js_add_def js_mul_def)
qed

lemma total_against_product:
  assumes "pow2 (- 1000) \<le> s"
  shows "\<bar>js_mul s (lit (113 / 100)) - js_add s (js_mul s (lit (13 / 100)))\<bar>
           \<le> js_add s (js_mul s (lit (13 / 100))) / 2 ^ 51"
    and "pow2 (- 1010) \<le> js_add s (js_mul s (lit (13 / 100)))"
proof -
  define u :: rat where "u = 1 / 2 ^ 53"
  define c13 where "c13 = lit (13 / 100)"
  define c113 where "c113 = lit (113 / 100)"
  define H where "H = to_double (s * c13)"
  define T where "T = to_double (s + H)"
  define P where "P = to_double (s * c113)"
  have c13v: "c13 = 1170935903116329 / 2 ^ 53" and c113v: "c113 = 1272266894732165 / 2 ^ 50"
    by (simp_all add: c13_def c113_def lit_values)
  have "pow2 (- 1010) \<le> pow2 (- 1000)" by (rule pow2_mono) simp
  then have s10: "pow2 (- 1010) \<le> s" using assms by linarith
  have s0: "0 < s" using s10 pow2_pos [of "- 1010"] by linarith
  have u1: "0 \<le> 1 - u" "0 \<le> 1 + u" by (simp_all add: u_def)
  have okH: "pow2 (- 1022) \<le> s * c13" by (rule scale_normal [OF s10]) (simp add: c13v)
  have okP: "pow2 (- 1022) \<le> s * c113" by (rule scale_normal [OF s10]) (simp add: c113v)
  from to_double_bounds [OF okH]
  have H_lo: "s * c13 * (1 - u) \<le> H" and H_hi: "H \<le> s * c13 * (1 + u)"
    by (simp_all add: H_def u_def)
  from to_double_bounds [OF okP]
  have P_lo: "s * c113 * (1 - u) \<le> P" and P_hi: "P \<le> s * c113 * (1 + u)"
    by (simp_all add: P_def u_def)
  have sum_lo: "s * (1 + c13 * (1 - u)) \<le> s + H" using H_lo by (simp add: algebra_simps)
  have sum_hi: "s + H \<le> s * (1 + c13 * (1 + u))" using H_hi by (simp add: algebra_simps)
  have "pow2 (- 1022) \<le> s * (1 + c13 * (1 - u))"
    by (rule scale_normal [OF s10]) (simp add: c13v u_def)
  then have okT: "pow2 (- 1022) \<le> s + H" using sum_lo by linarith
  from to_double_bounds [OF okT]
  have T_lo: "(s + H) * (1 - u) \<le> T" and T_hi: "T \<le> (s + H) * (1 + u)"
    by (simp_all add: T_def u_def)
  have Tl: "s * ((1 + c13 * (1 - u)) * (1 - u)) \<le> T"
  proof -
    have "s * ((1 + c13 * (1 - u)) * (1 - u)) = s * (1 + c13 * (1 - u)) * (1 - u)" by simp
    also have "\<dots> \<le> (s + H) * (1 - u)" using sum_lo u1 by (intro mult_right_mono)
    also have "\<dots> \<le> T" by (rule T_lo)
    finally show ?thesis .
  qed
  have Th: "T \<le> s * ((1 + c13 * (1 + u)) * (1 + u))"
  proof -
    have "T \<le> (s + H) * (1 + u)" by (rule T_hi)
    also have "\<dots> \<le> s * (1 + c13 * (1 + u)) * (1 + u)" using sum_hi u1 by (intro mult_right_mono)
    also have "\<dots> = s * ((1 + c13 * (1 + u)) * (1 + u))" by simp
    finally show ?thesis .
  qed
  have T0: "0 < T"
  proof -
    have "0 < s * ((1 + c13 * (1 - u)) * (1 - u))"
      using s0 by (intro mult_pos_pos) (simp_all add: c13v u_def)
    then show ?thesis using Tl by linarith
  qed
  have "pow2 (- 1010) \<le> s * (1 / 2)"
  proof -
    have "pow2 (- 1010) \<le> pow2 (- 1001)" by (rule pow2_mono) simp
    also have "pow2 (- 1001) = pow2 (- 1000) * (1 / 2)"
      using pow2_add [of "- 1000" "- 1"] by (simp add: pow2_def)
    also have "\<dots> \<le> s * (1 / 2)" using assms by simp
    finally show ?thesis .
  qed
  also have "s * (1 / 2) \<le> s * ((1 + c13 * (1 - u)) * (1 - u))"
    using s0 by (intro mult_left_mono) (simp_all add: c13v u_def)
  also have "\<dots> \<le> T" by (rule Tl)
  finally have T10: "pow2 (- 1010) \<le> T" .
  have "P \<le> s * c113 * (1 + u)" by (rule P_hi)
  also have "\<dots> = s * (c113 * (1 + u))" by simp
  also have "\<dots> \<le> s * ((1 + c13 * (1 - u)) * (1 - u) * (1 + 1 / 2 ^ 51))"
    using s0 by (intro mult_left_mono) (simp_all add: c13v c113v u_def)
  also have "\<dots> = s * ((1 + c13 * (1 - u)) * (1 - u)) * (1 + 1 / 2 ^ 51)" by simp
  also have "\<dots> \<le> T * (1 + 1 / 2 ^ 51)" using Tl by (intro mult_right_mono) simp_all
  finally have hi: "P \<le> T * (1 + 1 / 2 ^ 51)" .
  have "T * (1 - 1 / 2 ^ 51) \<le> s * ((1 + c13 * (1 + u)) * (1 + u)) * (1 - 1 / 2 ^ 51)"
    using Th by (intro mult_right_mono) simp_all
  also have "\<dots> = s * ((1 + c13 * (1 + u)) * (1 + u) * (1 - 1 / 2 ^ 51))" by simp
  also have "\<dots> \<le> s * (c113 * (1 - u))"
    using s0 by (intro mult_left_mono) (simp_all add: c13v c113v u_def)
  also have "\<dots> = s * c113 * (1 - u)" by simp
  also have "\<dots> \<le> P" by (rule P_lo)
  finally have lo: "T * (1 - 1 / 2 ^ 51) \<le> P" .
  have "P - T \<le> T / 2 ^ 51" and "- (P - T) \<le> T / 2 ^ 51"
    using hi lo by (simp_all add: algebra_simps)
  then have "\<bar>P - T\<bar> \<le> T / 2 ^ 51" by (rule abs_leI)
  then show "\<bar>js_mul s (lit (113 / 100)) - js_add s (js_mul s (lit (13 / 100)))\<bar>
           \<le> js_add s (js_mul s (lit (13 / 100))) / 2 ^ 51"
    by (simp add: P_def T_def H_def c13_def c113_def js_add_def js_mul_def)
  show "pow2 (- 1010) \<le> js_add s (js_mul s (lit (13 / 100)))"
    using T10 by (simp add: T_def H_def c13_def js_add_def js_mul_def)
qed

lemma scenario_subtotal:
  "subtotal catalog (INITIAL_STATE\<lparr>service := Some ''standard'', hours := h\<rparr>) = js_mul 50 h"
  by (simp add: subtotal_def currentService_def catalog_def)

text \<open>
  C5, as the code has it. Each figure is rounded when it is computed, so the two identities
  hold up to rounding only: for a subtotal between \<open>2^-1000\<close> and \<open>2^1000\<close>, where no
  operation leaves the normal range of binary64, deposit + remaining and subtotal * 1.13 each
  differ from the total by at most the total times \<open>2^-51\<close>. They are exact when the subtotal
  is zero.
\<close>

theorem figures_agree_up_to_rounding:
  "(subtotal SERVICE_OPTIONS b = 0 \<longrightarrow>
      js_add (depositAmount SERVICE_OPTIONS b) (remainingAmount SERVICE_OPTIONS b)
        = totalCost SERVICE_OPTIONS b \<and>
      js_mul (subtotal SERVICE_OPTIONS b) (lit (113 / 100)) = totalCost SERVICE_OPTIONS b) \<and>
   (pow2 (- 1000) \<le> subtotal SERVICE_OPTIONS b \<and> subtotal SERVICE_OPTIONS b \<le> pow2 1000 \<longrightarrow>
      \<bar>js_add (depositAmount SERVICE_OPTIONS b) (remainingAmount SERVICE_OPTIONS b)
         - totalCost SERVICE_OPTIONS b\<bar> \<le> totalCost SERVICE_OPTIONS b / 2 ^ 51 \<and>
      \<bar>js_mul (subtotal SERVICE_OPTIONS b) (lit (113 / 100)) - totalCost SERVICE_OPTIONS b\<bar>
         \<le> totalCost SERVICE_OPTIONS b / 2 ^ 51)"
proof (intro conjI impI)
  assume z: "subtotal SERVICE_OPTIONS b = 0"
  then have t: "totalCost SERVICE_OPTIONS b = 0"
    by (simp add: totalCost_def hstAmount_def js_mul_zero js_add_zero_zero)
  show "js_add (depositAmount SERVICE_OPTIONS b) (remainingAmount SERVICE_OPTIONS b)
        = totalCost SERVICE_OPTIONS b"
    by (simp add: depositAmount_def remainingAmount_def t js_mul_zero js_add_zero_zero)
  show "js_mul (subtotal SERVICE_OPTIONS b) (lit (113 / 100)) = totalCost SERVICE_OPTIONS b"
    by (simp add: z t js_mul_zero)
next
  assume r: "pow2 (- 1000) \<le> subtotal SERVICE_OPTIONS b \<and> subtotal SERVICE_OPTIONS b \<le> pow2 1000"
  then have s: "pow2 (- 1000) \<le> subtotal SERVICE_OPTIONS b" ..
  have T: "totalCost SERVICE_OPTIONS b =
      js_add (subtotal SERVICE_OPTIONS b) (js_mul (subtotal SERVICE_OPTIONS b) (lit (13 / 100)))"
    by (simp only: totalCost_def hstAmount_def HST_RATE_def)
  from total_against_product(2) [OF s] have "pow2 (- 1010) \<le> totalCost SERVICE_OPTIONS b"
    by (simp only: T)
  from deposit_remaining_sum [OF this]
  show "\<bar>js_add (depositAmount SERVICE_OPTIONS b) (remainingAmount SERVICE_OPTIONS b)
         - totalCost SERVICE_OPTIONS b\<bar> \<le> totalCost SERVICE_OPTIONS b / 2 ^ 51"
    by (simp only: depositAmount_def remainingAmount_def)
  from total_against_product(1) [OF s]
  show "\<bar>js_mul (subtotal SERVICE_OPTIONS b) (lit (113 / 100)) - totalCost SERVICE_OPTIONS b\<bar>
         \<le> totalCost SERVICE_OPTIONS b / 2 ^ 51"
    by (simp only: T)
qed

text \<open>The home service at 50 an hour for 3.5 hours: the subtotal is 175 and the total 197.75.\<close>

theorem figures_agree_up_to_rounding_witness:
  "subtotal catalog (INITIAL_STATE\<lparr>service := Some ''standard'', hours := 7 / 2\<rparr>) = 175 \<and>
   \<bar>js_add (depositAmount catalog (INITIAL_STATE\<lparr>service := Some ''standard'', hours := 7 / 2\<rparr>))
           (remainingAmount catalog (INITIAL_STATE\<lparr>service := Some ''standard'', hours := 7 / 2\<rparr>))
      - totalCost catalog (INITIAL_STATE\<lparr>service := Some ''standard'', hours := 7 / 2\<rparr>)\<bar>
     \<le> totalCost catalog (INITIAL_STATE\<lparr>service := Some ''standard'', hours := 7 / 2\<rparr>) / 2 ^ 51"
proof -
  let ?b = "INITIAL_STATE\<lparr>service := Some ''standard'', hours := 7 / 2\<rparr>"
  have s: "subtotal catalog ?b = 175"
    by (simp add: scenario_subtotal js_eval dbl_eval)
  have "pow2 (- 1000) \<le> pow2 0" "pow2 8 \<le> pow2 1000" by (rule pow2_mono, simp)+
  moreover have "pow2 0 \<le> 175" "175 \<le> pow2 8" by (simp_all add: pow2_def)
  ultimately have "pow2 (- 1000) \<le> subtotal catalog ?b \<and> subtotal catalog ?b \<le> pow2 1000"
    unfolding s by linarith
  with figures_agree_up_to_rounding [of catalog ?b] s show ?thesis by blast
qed

text \<open>
  C5 as stated fails. For the home service at 50 an hour and 3.5 hours the total is 197.75;
  deposit + remaining and subtotal * 1.13 both evaluate to 197.74999999999997, the binary64
  value just below.
\<close>

theorem figures_not_exact_counterexample:
  "subtotal catalog (INITIAL_STATE\<lparr>service := Some ''standard'', hours := 7 / 2\<rparr>) = 175 \<and>
   totalCost catalog (INITIAL_STATE\<lparr>service := Some ''standard'', hours := 7 / 2\<rparr>) = 791 / 4 \<and>
   js_add (depositAmount catalog (INITIAL_STATE\<lparr>service := Some ''standard'', hours := 7 / 2\<rparr>))
          (remainingAmount catalog (INITIAL_STATE\<lparr>service := Some ''standard'', hours := 7 / 2\<rparr>))
     = 6957709580566527 / 2 ^ 45 \<and>
   js_mul (subtotal catalog (INITIAL_STATE\<lparr>service := Some ''standard'', hours := 7 / 2\<rparr>))
          (lit (113 / 100))
     = 6957709580566527 / 2 ^ 45 \<and>
   (6957709580566527 / 2 ^ 45 :: rat) \<noteq> 791 / 4"
proof -
  let ?b = "INITIAL_STATE\<lparr>service := Some ''standard'', hours := 7 / 2\<rparr>"
  have s: "subtotal catalog ?b = 175"
    by (simp add: scenario_subtotal js_eval dbl_eval)
  have h: "hstAmount catalog ?b = 91 / 4"
    unfolding hstAmount_def s HST_RATE_def by (simp add: js_eval dbl_eval)
  have t: "totalCost catalog ?b = 791 / 4"
    unfolding totalCost_def s h by (simp add: js_eval dbl_eval)
  have d: "depositAmount catalog ?b = 8349251496679833 / 2 ^ 47"
    unfolding depositAmount_def t by (simp add: js_eval dbl_eval)
  have r: "remainingAmount catalog ?b = 4870396706396569 / 2 ^ 45"
    unfolding remainingAmount_def t by (simp add: js_eval dbl_eval)
  have a: "js_add (depositAmount catalog ?b) (remainingAmount catalog ?b) = 6957709580566527 / 2 ^ 45"
    unfolding d r by (simp add: js_eval dbl_eval)
  have p: "js_mul (subtotal catalog ?b) (lit (113 / 100)) = 6957709580566527 / 2 ^ 45"
    unfolding s by (simp add: js_eval dbl_eval)
  have n: "(6957709580566527 / 2 ^ 45 :: rat) \<noteq> 791 / 4" by simp
  from s t a p n show ?thesis by blast
qed

section \<open>The home estimate over the decimals\<close>

lemma round_half_even_near:
  assumes "\<bar>z - of_int m\<bar> < 1 / 2"
  shows "round_half_even z = m"
proof (cases "of_int m \<le> z")
  case True
  then have "of_int m \<le> z" "z < of_int m + 1" using assms by linarith+
  then have f: "\<lfloor>z\<rfloor> = m" by (simp add: floor_unique)
  have "z - of_int m < 1 / 2" using assms by linarith
  then show ?thesis by (simp add: round_half_even_def f)
next
  case False
  then have "of_int (m - 1) \<le> z" "z < of_int (m - 1) + 1" using assms by simp_all
  then have f: "\<lfloor>z\<rfloor> = m - 1" by (rule floor_unique)
  have "1 / 2 < z - of_int (m - 1)" using assms False by simp
  then show ?thesis by (simp add: round_half_even_def f)
qed

lemma to_double_quarters:
  assumes "\<bar>m\<bar> < 2 ^ 53"
  shows "to_double (of_int m / 4) = of_int m / 4"
proof -
  have "(of_int m / 4 :: rat) = of_int m * pow2 (- 2)" by (simp add: pow2_def)
  then show ?thesis using assms to_double_exact [of "of_int m / 4" m "- 2"] by simp
qed

lemma to_double_halves:
  assumes "\<bar>m\<bar> < 2 ^ 53"
  shows "to_double (of_int m / 2) = of_int m / 2"
proof -
  have "(of_int m / 2 :: rat) = of_int m * pow2 (- 1)" by (simp add: pow2_def)
  then show ?thesis using assms to_double_exact [of "of_int m / 2" m "- 1"] by simp
qed

lemma to_double_twice: "to_double (to_double z * 2) = to_double z * 2"
proof -
  obtain m e where r: "to_double z = of_int m * pow2 e" "\<bar>m\<bar> < 2 ^ 53" "- 1074 \<le> e"
    using to_double_representable by blast
  have "to_double z * 2 = of_int m * pow2 (e + 1)"
    by (simp add: r(1) pow2_add) (simp add: pow2_def)
  moreover have "- 1074 \<le> e + 1" using r(3) by simp
  ultimately show ?thesis using r(2) to_double_exact [of "to_double z * 2" m "e + 1"] by blast
qed

lemma five_thirds:
  "5 * lit (3 / 10) = 3 / 2 - 1 / 2 ^ 54"
  by (simp add: lit_values)

text \<open>Five bedrooms take 1.5 hours exactly: the product with the binary64 value of 0.3 rounds
  to the multiple of 1.5.\<close>

lemma bedrooms_by_five:
  assumes "c \<le> 2 ^ 20"
  shows "js_mul (of_nat (5 * c)) (lit (3 / 10)) = of_int (3 * int c) / 2"
proof (cases "c = 0")
  case True then show ?thesis by (simp add: js_mul_zero)
next
  case False
  define x :: rat where "x = of_nat (5 * c) * lit (3 / 10)"
  define y :: rat where "y = of_int (3 * int c) / 2"
  define e where "e = binexp x"
  have c1: "(1::rat) \<le> of_nat c" using False by simp
  have cN: "(of_nat c :: rat) \<le> 2 ^ 20" using assms
    by (metis of_nat_le_iff of_nat_numeral of_nat_power)
  have xc: "x = of_nat c * (3 / 2 - 1 / 2 ^ 54)"
    using five_thirds by (simp add: x_def algebra_simps)
  have xy: "y - x = of_nat c / 2 ^ 54" by (simp add: xc y_def algebra_simps)
  have x_ge: "of_nat c \<le> x"
  proof -
    have "of_nat c * 1 \<le> of_nat c * (3 / 2 - 1 / 2 ^ 54 :: rat)"
      by (intro mult_left_mono) simp_all
    then show ?thesis by (simp add: xc)
  qed
  have x_lt: "x < pow2 52"
  proof -
    have "x \<le> 2 ^ 20 * (3 / 2 - 1 / 2 ^ 54)"
      unfolding xc using cN by (intro mult_right_mono) simp_all
    also have "\<dots> < pow2 52" by (simp add: pow2_def)
    finally show ?thesis .
  qed
  have x0: "0 < x" using c1 x_ge by linarith
  from binexp_bounds [OF x0]
  have lo: "pow2 e \<le> x" and hi: "x < pow2 (e + 1)" by (simp_all add: e_def)
  have "pow2 0 \<le> x" using c1 x_ge by (simp add: pow2_def)
  then have "pow2 0 < pow2 (e + 1)" using hi by linarith
  then have e0: "0 \<le> e" using pow2_mono [of "e + 1" 0] by (cases "0 < e + 1") auto
  have "pow2 e < pow2 52" using lo x_lt by linarith
  then have e51: "e \<le> 51" using pow2_mono [of 52 e] by (cases "e < 52") auto
  define q where "q = pow2 (e - 52)"
  have q0: "0 < q" by (simp add: q_def pow2_pos)
  have qe: "q * 2 ^ 52 = pow2 e"
    using pow2_add [of "e - 52" 52] by (simp add: q_def) (simp add: pow2_def)
  have half: "pow2 (51 - e) * q = 1 / 2"
    using pow2_add [of "51 - e" "e - 52"] by (simp add: q_def) (simp add: pow2_def)
  have yq: "y / q = of_int (3 * int c * 2 ^ nat (51 - e))"
  proof -
    have "y = of_int (3 * int c) * (pow2 (51 - e) * q)" by (simp add: half y_def)
    then have "y / q = of_int (3 * int c) * pow2 (51 - e)" using q0 by simp
    also have "pow2 (51 - e) = of_int (2 ^ nat (51 - e))" using e51 by (simp add: pow2_nat)
    finally show ?thesis by simp
  qed
  have "of_nat c < pow2 (e + 1)" using x_ge hi by linarith
  also have "pow2 (e + 1) = q * 2 ^ 53"
    using pow2_add [of e 1] qe by (simp add: pow2_def)
  finally have cq: "of_nat c < q * 2 ^ 53" .
  have "\<bar>x / q - y / q\<bar> = (y - x) / q"
    using q0 xy by (simp add: diff_divide_distrib [symmetric] abs_divide abs_minus_commute)
  also have "\<dots> = of_nat c / (q * 2 ^ 54)" by (simp add: xy)
  also have "\<dots> < 1 / 2" using cq q0 by (simp add: field_simps)
  finally have "\<bar>x / q - of_int (3 * int c * 2 ^ nat (51 - e))\<bar> < 1 / 2"
    by (simp only: yq)
  then have "round_half_even (x / q) = 3 * int c * 2 ^ nat (51 - e)"
    by (rule round_half_even_near)
  then have "of_int (round_half_even (x / q)) * q = y / q * q" by (simp only: yq)
  also have "\<dots> = y" using q0 by simp
  finally have r: "of_int (round_half_even (x / q)) * q = y" .
  have "max (binexp x) (- 1022) = binexp x" using e0 by (simp add: e_def)
  then have "to_double x = of_int (round_half_even (x / q)) * q"
    using x0 by (simp add: to_double_def Let_def e_def q_def sgn_if)
  then have "to_double x = y" by (simp only: r)
  then show ?thesis unfolding js_mul_def x_def y_def .
qed

lemma to_double_abs_error:
  assumes "1 / 16 \<le> v" and "v \<le> 2 ^ 22"
  shows "\<bar>to_double v - v\<bar> \<le> 1 / 2 ^ 31"
proof -
  have "pow2 (- 1022) \<le> pow2 (- 4)" by (rule pow2_mono) simp
  also have "pow2 (- 4) = 1 / 16" by (simp add: pow2_def)
  finally have "pow2 (- 1022) \<le> \<bar>v\<bar>" using assms(1) by simp
  from to_double_rel_error [OF this] have "\<bar>to_double v - v\<bar> \<le> v / 2 ^ 53"
    using assms(1) by simp
  also have "\<dots> \<le> 2 ^ 22 / 2 ^ 53" using assms(2) by (simp add: divide_right_mono)
  also have "\<dots> = (1 / 2 ^ 31 :: rat)" by simp
  finally show ?thesis .
qed

lemma lit_exact: "lit (75 / 100) = 3 / 4" "lit (5 / 10) = 1 / 2" "lit (25 / 100) = 1 / 4"
  by (simp_all add: js_eval dbl_eval)

lemma nat_bound: "n \<le> 2 ^ 20 \<Longrightarrow> int n \<le> 2 ^ 20"
  by (metis of_nat_le_iff of_nat_numeral of_nat_power)

lemma home_exact_part:
  assumes "k \<le> 2 ^ 20" "a \<le> 2 ^ 20"
  shows "js_add (js_mul (of_nat k) (lit (75 / 100))) (js_mul (of_nat a) (lit (5 / 10)))
           = of_int (3 * int k + 2 * int a) / 4"
proof -
  have kb: "int k \<le> 2 ^ 20" and ab: "int a \<le> 2 ^ 20" using assms by (simp_all add: nat_bound)
  have "(of_nat k :: rat) * (3 / 4) = of_int (3 * int k) / 4" by simp
  moreover have "\<bar>3 * int k\<bar> < 2 ^ 53" using kb by simp
  ultimately have p1: "js_mul (of_nat k) (lit (75 / 100)) = of_int (3 * int k) / 4"
    using to_double_quarters [of "3 * int k"] by (simp only: js_mul_def lit_exact)
  have "(of_nat a :: rat) * (1 / 2) = of_int (2 * int a) / 4" by simp
  moreover have "\<bar>2 * int a\<bar> < 2 ^ 53" using ab by simp
  ultimately have p2: "js_mul (of_nat a) (lit (5 / 10)) = of_int (2 * int a) / 4"
    using to_double_quarters [of "2 * int a"] by (simp only: js_mul_def lit_exact)
  have "(of_int (3 * int k) / 4 + of_int (2 * int a) / 4 :: rat) = of_int (3 * int k + 2 * int a) / 4"
    by simp
  moreover have "\<bar>3 * int k + 2 * int a\<bar> < 2 ^ 53" using kb ab by simp
  ultimately show ?thesis
    using to_double_quarters [of "3 * int k + 2 * int a"] by (simp only: js_add_def p1 p2)
qed

lemma living_exact:
  assumes "l \<le> 2 ^ 20"
  shows "js_mul (of_nat l) (lit (25 / 100)) = of_int (int l) / 4"
proof -
  have "(of_nat l :: rat) * (1 / 4) = of_int (int l) / 4" by simp
  moreover have "\<bar>int l\<bar> < 2 ^ 53" using nat_bound [OF assms] by simp
  ultimately show ?thesis
    using to_double_quarters [of "int l"] by (simp only: js_mul_def lit_exact)
qed

text \<open>The sum the estimator accumulates, when the bedrooms are a multiple of five: every
  operation is exact.\<close>

lemma home_sum_by_five:
  assumes "k \<le> 2 ^ 20" "a \<le> 2 ^ 20" "c \<le> 2 ^ 20" "l \<le> 2 ^ 20"
  shows "js_add (js_add (of_int (3 * int k + 2 * int a) / 4)
                        (js_mul (of_nat (5 * c)) (lit (3 / 10))))
                (of_int (int l) / 4)
           = of_int (3 * int k + 2 * int a + 6 * int c + int l) / 4"
proof -
  have b: "int k \<le> 2 ^ 20" "int a \<le> 2 ^ 20" "int c \<le> 2 ^ 20" "int l \<le> 2 ^ 20"
    using assms by (simp_all add: nat_bound)
  have "(of_int (3 * int k + 2 * int a) / 4 + of_int (3 * int c) / 2 :: rat)
      = of_int (3 * int k + 2 * int a + 6 * int c) / 4" by simp
  moreover have "\<bar>3 * int k + 2 * int a + 6 * int c\<bar> < 2 ^ 53" using b by simp
  ultimately have s2: "js_add (of_int (3 * int k + 2 * int a) / 4)
      (js_mul (of_nat (5 * c)) (lit (3 / 10))) = of_int (3 * int k + 2 * int a + 6 * int c) / 4"
    using to_double_quarters [of "3 * int k + 2 * int a + 6 * int c"]
    by (simp only: js_add_def bedrooms_by_five [OF assms(3)])
  have e: "(of_int (3 * int k + 2 * int a + 6 * int c) / 4 + of_int (int l) / 4 :: rat)
      = of_int (3 * int k + 2 * int a + 6 * int c + int l) / 4" by simp
  have m: "\<bar>3 * int k + 2 * int a + 6 * int c + int l\<bar> < 2 ^ 53" using b by simp
  have "js_add (js_add (of_int (3 * int k + 2 * int a) / 4)
                        (js_mul (of_nat (5 * c)) (lit (3 / 10))))
                (of_int (int l) / 4)
      = js_add (of_int (3 * int k + 2 * int a + 6 * int c) / 4) (of_int (int l) / 4)"
    by (simp only: s2)
  also have "\<dots> = to_double (of_int (3 * int k + 2 * int a + 6 * int c + int l) / 4)"
    by (simp only: js_add_def e)
  also have "\<dots> = of_int (3 * int k + 2 * int a + 6 * int c + int l) / 4"
    using m by (rule to_double_quarters)
  finally show ?thesis .
qed

text \<open>Otherwise the sum is within \<open>2^-29\<close> of the sum over the decimals.\<close>

lemma home_sum_close:
  assumes "k \<le> 2 ^ 20" "a \<le> 2 ^ 20" "b \<le> 2 ^ 20" "l \<le> 2 ^ 20" "0 < b"
  shows "\<bar>js_add (js_add (of_int (3 * int k + 2 * int a) / 4)
                         (js_mul (of_nat b) (lit (3 / 10))))
                 (of_int (int l) / 4)
          - of_int (15 * int k + 10 * int a + 6 * int b + 5 * int l) / 20\<bar> \<le> 1 / 2 ^ 29"
proof -
  define S1 :: rat where "S1 = of_int (3 * int k + 2 * int a) / 4"
  define B :: rat where "B = of_nat b"
  define L4 :: rat where "L4 = of_int (int l) / 4"
  define x where "x = B * lit (3 / 10)"
  define p3 where "p3 = to_double x"
  define s2 where "s2 = to_double (S1 + p3)"
  define s3 where "s3 = to_double (s2 + L4)"
  have ib: "int k \<le> 2 ^ 20" "int a \<le> 2 ^ 20" "int l \<le> 2 ^ 20"
    using assms by (simp_all add: nat_bound)
  have "(of_int (3 * int k + 2 * int a) :: rat) \<le> of_int (5 * 2 ^ 20)"
    using ib by (simp only: of_int_le_iff)
  then have S1b: "0 \<le> S1" "S1 \<le> 5 * 2 ^ 18" by (simp_all add: S1_def)
  have "(of_int (int l) :: rat) \<le> of_int (2 ^ 20)" using ib by (simp only: of_int_le_iff)
  then have L4b: "0 \<le> L4" "L4 \<le> 2 ^ 18" by (simp_all add: L4_def)
  have Bb: "1 \<le> B" "B \<le> 2 ^ 20"
    using assms(3,5) by (simp_all add: B_def)
  define d :: rat where "d = 1 / 2 ^ 31"
  have d0: "0 \<le> d" "d \<le> 1 / 100" and d4: "4 * d = 1 / 2 ^ 29" by (simp_all add: d_def)
  have xd: "B * (3 / 10) - x = B / (5 * 2 ^ 54)"
    by (simp add: x_def lit_values algebra_simps)
  have "B / (5 * 2 ^ 54) \<le> 2 ^ 20 / (5 * 2 ^ 54)" using Bb by (simp add: divide_right_mono)
  also have "\<dots> \<le> d" by (simp add: d_def)
  finally have x_hi: "B * (3 / 10) - x \<le> d" by (simp only: xd)
  have x_lo: "0 \<le> B * (3 / 10) - x" using Bb by (simp only: xd) simp
  have N: "(2 ^ 20 :: rat) = 1048576" "(2 ^ 22 :: rat) = 4194304" "(2 ^ 18 :: rat) = 262144"
    by simp_all
  have xr: "1 / 16 \<le> x" "x \<le> 2 ^ 22"
    using x_hi x_lo Bb d0 unfolding N by linarith+
  from to_double_abs_error [OF xr] have e1: "\<bar>p3 - x\<bar> \<le> d" by (simp add: p3_def d_def)
  have yr: "1 / 16 \<le> S1 + p3" "S1 + p3 \<le> 2 ^ 22"
    using e1 x_hi x_lo Bb S1b d0 unfolding N by linarith+
  from to_double_abs_error [OF yr] have e2: "\<bar>s2 - (S1 + p3)\<bar> \<le> d"
    by (simp add: s2_def d_def)
  have zr: "1 / 16 \<le> s2 + L4" "s2 + L4 \<le> 2 ^ 22"
    using e2 e1 x_hi x_lo Bb S1b L4b d0 unfolding N by linarith+
  from to_double_abs_error [OF zr] have e3: "\<bar>s3 - (s2 + L4)\<bar> \<le> d"
    by (simp add: s3_def d_def)
  have r: "of_int (15 * int k + 10 * int a + 6 * int b + 5 * int l) / 20 = S1 + B * (3 / 10) + L4"
    by (simp add: S1_def B_def L4_def)
  have "\<bar>s3 - (S1 + B * (3 / 10) + L4)\<bar> \<le> 4 * d"
    using e1 e2 e3 x_hi x_lo by linarith
  then have "\<bar>s3 - of_int (15 * int k + 10 * int a + 6 * int b + 5 * int l) / 20\<bar> \<le> 1 / 2 ^ 29"
    by (simp only: r d4)
  then show ?thesis
    by (simp only: s3_def s2_def p3_def x_def S1_def B_def L4_def js_add_def js_mul_def)
qed

lemma ceiling_near:
  fixes s3 M R d :: rat
  assumes "\<bar>s3 - (M + R / 10) / 2\<bar> \<le> d" "0 \<le> d" "d \<le> 1 / 100" "1 \<le> R" "R \<le> 9"
  shows "M < s3 * 2" "s3 * 2 \<le> M + 1" "M < M + R / 10" "M + R / 10 \<le> M + 1"
proof -
  have h: "(M + R / 10) / 2 = M / 2 + R / 20" by simp
  from assms(1) have a: "s3 - (M / 2 + R / 20) \<le> d" "- (s3 - (M / 2 + R / 20)) \<le> d"
    unfolding h abs_le_iff by blast+
  show "M < s3 * 2" using a assms(2-5) by linarith
  show "s3 * 2 \<le> M + 1" using a assms(2-5) by linarith
  show "M < M + R / 10" using assms(4) by simp
  show "M + R / 10 \<le> M + 1" using assms(5) by simp
qed

lemma ceilings_agree:
  fixes s3 :: rat and m r :: int
  assumes s: "\<bar>s3 - (of_int m + of_int r / 10) / 2\<bar> \<le> 1 / 2 ^ 29"
    and r1: "(1 :: rat) \<le> of_int r" "(of_int r :: rat) \<le> 9"
  shows "\<lceil>s3 * 2\<rceil> = \<lceil>of_int m + of_int r / 10 :: rat\<rceil>"
proof -
  have d: "(0 :: rat) \<le> 1 / 2 ^ 29" "(1 / 2 ^ 29 :: rat) \<le> 1 / 100" by simp_all
  note c = ceiling_near [OF s d r1]
  have m1: "(of_int (m + 1) :: rat) = of_int m + 1" by simp
  have "of_int (m + 1) - 1 < s3 * 2" "s3 * 2 \<le> of_int (m + 1)"
    unfolding m1 using c(1,2) by simp_all
  then have 1: "\<lceil>s3 * 2\<rceil> = m + 1" by (rule ceiling_unique)
  have "of_int (m + 1) - 1 < (of_int m + of_int r / 10 :: rat)"
    "(of_int m + of_int r / 10 :: rat) \<le> of_int (m + 1)"
    unfolding m1 using c(3,4) by simp_all
  then have 2: "\<lceil>of_int m + of_int r / 10 :: rat\<rceil> = m + 1" by (rule ceiling_unique)
  show ?thesis by (simp only: 1 2)
qed

lemma not_multiple_of_ten:
  fixes k a b l :: nat
  assumes "\<not> 5 dvd b" "j = 15 * int k + 10 * int a + 6 * int b + 5 * int l"
  shows "j mod 10 \<noteq> 0"
proof -
  have "j = 5 * (3 * int k + 2 * int a + int b + int l) + int b" by (simp add: assms(2))
  then have "j mod 5 = int b mod 5" by (metis mod_mult_self4)
  moreover have "int b mod 5 \<noteq> 0" using assms(1) by presburger
  ultimately show ?thesis by presburger
qed

text \<open>
  For counts up to \<open>2^20\<close> the home estimate is the value of the formula over the decimals
  0.75, 0.5, 0.3 and 0.25 as well: the rounding errors of the sum stay below \<open>2^-29\<close>, the
  doubled sum over the decimals is a multiple of 0.1, and where it is an integer the bedrooms
  are a multiple of five and no operation rounds.
\<close>

lemma homeHours_decimal:
  assumes "k \<le> 2 ^ 20" "a \<le> 2 ^ 20" "b \<le> 2 ^ 20" "l \<le> 2 ^ 20"
  shows "homeHours \<lparr> bedrooms = of_nat b, bathrooms = of_nat a, kitchen = of_nat k, living = of_nat l \<rparr>
           = max 2 (of_int \<lceil>(of_nat k * (75 / 100) + of_nat a * (5 / 10) + of_nat b * (3 / 10)
                                 + of_nat l * (25 / 100)) * 2 :: rat\<rceil> / 2)"
proof -
  define j where "j = 15 * int k + 10 * int a + 6 * int b + 5 * int l"
  define s3 where "s3 = js_add (js_add (of_int (3 * int k + 2 * int a) / 4)
                                       (js_mul (of_nat b) (lit (3 / 10))))
                               (of_int (int l) / 4)"
  have ib: "int k \<le> 2 ^ 20" "int a \<le> 2 ^ 20" "int b \<le> 2 ^ 20" "int l \<le> 2 ^ 20"
    using assms by (simp_all add: nat_bound)
  have raw: "(of_nat k * (75 / 100) + of_nat a * (5 / 10) + of_nat b * (3 / 10)
               + of_nat l * (25 / 100)) * 2 = (of_int j / 10 :: rat)"
    by (simp add: j_def)
  have hh: "homeHours \<lparr> bedrooms = of_nat b, bathrooms = of_nat a, kitchen = of_nat k, living = of_nat l \<rparr>
      = Math_max 2 (js_div (Math_ceil (js_mul s3 2)) 2)"
    unfolding homeHours_def roundUpToHalf_def Let_def s3_def
    by (simp only: HomeEstimator.select_convs home_exact_part [OF assms(1,2)]
        living_exact [OF assms(4)])
  obtain z where z: "s3 = to_double z" unfolding s3_def js_add_def by blast
  have tw: "js_mul s3 2 = s3 * 2" by (simp only: js_mul_def z to_double_twice)
  have key: "\<lceil>s3 * 2\<rceil> = \<lceil>of_int j / 10 :: rat\<rceil>"
  proof (cases "5 dvd b")
    case True
    then obtain c where c: "b = 5 * c" ..
    then have cb: "c \<le> 2 ^ 20" using assms(3) by simp
    have "s3 = of_int (3 * int k + 2 * int a + 6 * int c + int l) / 4"
      unfolding s3_def c by (rule home_sum_by_five [OF assms(1,2) cb assms(4)])
    then have "s3 * 2 = of_int j / 10" by (simp add: j_def c)
    then show ?thesis by (simp only:)
  next
    case False
    then have b0: "0 < b" by (cases b) simp_all
    from home_sum_close [OF assms b0]
    have cl: "\<bar>s3 - of_int j / 20\<bar> \<le> 1 / 2 ^ 29" by (simp only: s3_def j_def)
    define m where "m = j div 10"
    define r where "r = j mod 10"
    have "r \<noteq> 0" unfolding r_def using False j_def by (rule not_multiple_of_ten)
    moreover have "0 \<le> r" "r < 10" by (simp_all add: r_def)
    ultimately have rr: "1 \<le> r" "r \<le> 9" by simp_all
    have "j = 10 * m + r" by (simp add: m_def r_def)
    then have jq: "(of_int j / 10 :: rat) = of_int m + of_int r / 10" by simp
    have r1: "(1 :: rat) \<le> of_int r" "(of_int r :: rat) \<le> 9"
      using rr by simp_all
    have "of_int j / 20 = (of_int m + of_int r / 10) / (2 :: rat)" using jq by simp
    then have s: "\<bar>s3 - (of_int m + of_int r / 10) / 2\<bar> \<le> 1 / 2 ^ 29"
      using cl by (simp only:)
    from ceilings_agree [OF s r1] show ?thesis by (simp only: jq)
  qed
  have j0: "0 \<le> j" "j \<le> 36 * 2 ^ 20" using ib by (simp_all add: j_def)
  have "(of_int j / 10 :: rat) \<le> of_int j" using j0 by simp
  then have "\<lceil>of_int j / 10 :: rat\<rceil> \<le> j" by (simp add: ceiling_le_iff)
  moreover have "0 \<le> \<lceil>of_int j / 10 :: rat\<rceil>" using j0 by simp
  ultimately have nb: "\<bar>\<lceil>of_int j / 10 :: rat\<rceil>\<bar> < 2 ^ 53" using j0 by simp
  have "js_div (Math_ceil (js_mul s3 2)) 2 = to_double (of_int \<lceil>of_int j / 10 :: rat\<rceil> / 2)"
    by (simp only: js_div_def Math_ceil_def tw key)
  also have "\<dots> = of_int \<lceil>of_int j / 10 :: rat\<rceil> / 2" using nb by (rule to_double_halves)
  finally show ?thesis by (simp only: hh raw Math_max_def)
qed

text \<open>
  C6. A mutation of a home counter clamps the new count at 0 and writes
  max(2, ceil(raw * 2) / 2) into booking.hours, where
  raw = kitchen*0.75 + bathrooms*0.5 + bedrooms*0.3 + living*0.25 over the new counts, each
  operation being the program's. For counts up to \<open>2^20\<close> that value is also the value of the
  formula over the decimals, without any rounding. The counts 2 bedrooms, 1 bathroom,
  1 kitchen, 1 living area give 2.5 hours.
\<close>

theorem handleHomeChange_writes_homeHours:
  "homeEstimator (handleHomeChange field delta w) =
     home_set (homeEstimator w) field (Math_max 0 (js_add (home_get (homeEstimator w) field) delta)) \<and>
   hours (booking (handleHomeChange field delta w)) =
     homeHours (homeEstimator (handleHomeChange field delta w)) \<and>
   (k \<le> 2 ^ 20 \<and> a \<le> 2 ^ 20 \<and> b \<le> 2 ^ 20 \<and> l \<le> 2 ^ 20 \<longrightarrow>
      homeHours \<lparr> bedrooms = of_nat b, bathrooms = of_nat a, kitchen = of_nat k, living = of_nat l \<rparr>
        = max 2 (of_int \<lceil>(of_nat k * (75 / 100) + of_nat a * (5 / 10) + of_nat b * (3 / 10)
                              + of_nat l * (25 / 100)) * 2 :: rat\<rceil> / 2)) \<and>
   homeHours \<lparr> bedrooms = 2, bathrooms = 1, kitchen = 1, living = 1 \<rparr> = 5 / 2"
  using handleHomeChange_estimator handleHomeChange_hours homeHours_defaults homeHours_decimal
  by blast

text \<open>One more bedroom, from 1 to 2, beside one bathroom, kitchen and living area:
  raw = 0.75 + 0.5 + 0.6 + 0.25 = 2.1, doubled 4.2, rounded up 5, halved 2.5.\<close>

theorem handleHomeChange_writes_homeHours_witness:
  "hours (booking (handleHomeChange Bedrooms 1
     (initialWizard\<lparr>homeEstimator := \<lparr> bedrooms = 1, bathrooms = 1, kitchen = 1, living = 1 \<rparr>\<rparr>)))
     = max 2 (of_int \<lceil>(1 * (75 / 100) + 1 * (5 / 10) + 2 * (3 / 10) + 1 * (25 / 100)) * 2 :: rat\<rceil> / 2) \<and>
   max 2 (of_int \<lceil>(1 * (75 / 100) + 1 * (5 / 10) + 2 * (3 / 10) + 1 * (25 / 100)) * 2 :: rat\<rceil> / 2)
     = (5 / 2 :: rat)"
proof -
  let ?w = "initialWizard\<lparr>homeEstimator := \<lparr> bedrooms = 1, bathrooms = 1, kitchen = 1, living = 1 \<rparr>\<rparr>"
  note t = handleHomeChange_writes_homeHours [of Bedrooms 1 ?w 1 1 2 1]
  have e: "homeEstimator (handleHomeChange Bedrooms 1 ?w)
      = \<lparr> bedrooms = of_nat 2, bathrooms = of_nat 1, kitchen = of_nat 1, living = of_nat 1 \<rparr>"
    using t by (simp add: Math_max_def)
  have b: "(1::nat) \<le> 2 ^ 20 \<and> (1::nat) \<le> 2 ^ 20 \<and> (2::nat) \<le> 2 ^ 20 \<and> (1::nat) \<le> 2 ^ 20"
    by simp
  from t b have "homeHours \<lparr> bedrooms = of_nat 2, bathrooms = of_nat 1, kitchen = of_nat 1, living = of_nat 1 \<rparr>
      = max 2 (of_int \<lceil>(of_nat 1 * (75 / 100) + of_nat 1 * (5 / 10) + of_nat 2 * (3 / 10)
                              + of_nat 1 * (25 / 100)) * 2 :: rat\<rceil> / 2)" by blast
  with t e have 1: "hours (booking (handleHomeChange Bedrooms 1 ?w))
      = max 2 (of_int \<lceil>(1 * (75 / 100) + 1 * (5 / 10) + 2 * (3 / 10) + 1 * (25 / 100)) * 2 :: rat\<rceil> / 2)"
    by simp
  have 2: "max 2 (of_int \<lceil>(1 * (75 / 100) + 1 * (5 / 10) + 2 * (3 / 10) + 1 * (25 / 100)) * 2 :: rat\<rceil> / 2)
     = (5 / 2 :: rat)"
    by (simp add: ceiling_def floor_rat_neg_numeral)
  from 1 2 show ?thesis by blast
qed

section \<open>The office estimate over the decimals\<close>




















text \<open>A whole rate times a number of half hours is a number of halves, which binary64 holds
  exactly.\<close>

lemma js_mul_rate_hours:
  assumes "R \<le> 2 ^ 20" "k \<le> 2 ^ 20"
  shows "js_mul (of_nat R) (of_nat k / 2) = of_nat R * (of_nat k / 2)"
proof -
  have "R * k \<le> 2 ^ 20 * 2 ^ 20" using assms by (rule mult_le_mono)
  then have "R * k \<le> 2 ^ 40" by simp
  then have "int (R * k) \<le> int (2 ^ 40)" by (simp only: of_nat_le_iff)
  then have "int (R * k) \<le> 2 ^ 40" by simp
  moreover have "(2 ^ 40 :: int) < 2 ^ 53" by simp
  ultimately have "int (R * k) < 2 ^ 53" by linarith
  then have b: "\<bar>int (R * k)\<bar> < 2 ^ 53" by simp
  have "(of_nat R * (of_nat k / 2) :: rat) = of_int (int (R * k)) / 2" by simp
  then show ?thesis unfolding js_mul_def using to_double_halves [OF b] by (simp only:)
qed

text \<open>
  C4. The five figures are computed from the booked hours and the rate of the catalog entry
  whose id is the selected service (the ids of a catalog are distinct):
  subtotal = hourlyRate * hours, tax = subtotal * 0.13, total = subtotal + tax,
  deposit = total * 0.30, remaining = total * 0.70, each operation being the program's.
  Where the rate is a whole number up to \<open>2^20\<close> and the hours are a multiple of 0.5 up to
  \<open>2^19\<close>, the product does not round: the subtotal is the rate times the hours exactly.
  With no service selected, or one the catalog does not hold, all five are zero.
\<close>

theorem pricing_figures:
  "(distinct (map service_id SERVICE_OPTIONS) \<and> s \<in> set SERVICE_OPTIONS \<and>
    service b = Some (service_id s) \<longrightarrow>
      subtotal SERVICE_OPTIONS b = js_mul (hourlyRate s) (hours b) \<and>
      hstAmount SERVICE_OPTIONS b = js_mul (js_mul (hourlyRate s) (hours b)) (lit (13 / 100)) \<and>
      totalCost SERVICE_OPTIONS b =
        js_add (js_mul (hourlyRate s) (hours b))
               (js_mul (js_mul (hourlyRate s) (hours b)) (lit (13 / 100))) \<and>
      depositAmount SERVICE_OPTIONS b =
        js_mul (js_add (js_mul (hourlyRate s) (hours b))
                       (js_mul (js_mul (hourlyRate s) (hours b)) (lit (13 / 100))))
               (lit (30 / 100)) \<and>
      remainingAmount SERVICE_OPTIONS b =
        js_mul (js_add (js_mul (hourlyRate s) (hours b))
                       (js_mul (js_mul (hourlyRate s) (hours b)) (lit (13 / 100))))
               (lit (70 / 100))) \<and>
   (distinct (map service_id SERVICE_OPTIONS) \<and> s \<in> set SERVICE_OPTIONS \<and>
    service b = Some (service_id s) \<and>
    hourlyRate s = of_nat R \<and> R \<le> 2 ^ 20 \<and> hours b = of_nat k / 2 \<and> k \<le> 2 ^ 20 \<longrightarrow>
      subtotal SERVICE_OPTIONS b = hourlyRate s * hours b) \<and>
   (\<forall>s. currentService SERVICE_OPTIONS b = Some s \<longrightarrow>
        subtotal SERVICE_OPTIONS b = js_mul (hourlyRate s) (hours b)) \<and>
   hstAmount SERVICE_OPTIONS b = js_mul (subtotal SERVICE_OPTIONS b) (lit (13 / 100)) \<and>
   totalCost SERVICE_OPTIONS b = js_add (subtotal SERVICE_OPTIONS b) (hstAmount SERVICE_OPTIONS b) \<and>
   depositAmount SERVICE_OPTIONS b = js_mul (totalCost SERVICE_OPTIONS b) (lit (30 / 100)) \<and>
   remainingAmount SERVICE_OPTIONS b = js_mul (totalCost SERVICE_OPTIONS b) (lit (70 / 100)) \<and>
   (service b = None \<or> (\<exists>sid. service b = Some sid \<and> sid \<notin> service_id ` set SERVICE_OPTIONS) \<longrightarrow>
      subtotal SERVICE_OPTIONS b = 0 \<and> hstAmount SERVICE_OPTIONS b = 0 \<and>
      totalCost SERVICE_OPTIONS b = 0 \<and> depositAmount SERVICE_OPTIONS b = 0 \<and>
      remainingAmount SERVICE_OPTIONS b = 0)"
proof -
  have sel: "subtotal SERVICE_OPTIONS b = js_mul (hourlyRate s) (hours b)"
    if "distinct (map service_id SERVICE_OPTIONS) \<and> s \<in> set SERVICE_OPTIONS \<and>
        service b = Some (service_id s)"
    using currentService_selected [of SERVICE_OPTIONS s b] that by (simp add: subtotal_def)
  have none: "currentService SERVICE_OPTIONS b = None"
    if "service b = None \<or> (\<exists>sid. service b = Some sid \<and> sid \<notin> service_id ` set SERVICE_OPTIONS)"
    using that currentService_none currentService_absent by blast
  have rel: "hstAmount SERVICE_OPTIONS b = js_mul (subtotal SERVICE_OPTIONS b) (lit (13 / 100))"
    "totalCost SERVICE_OPTIONS b = js_add (subtotal SERVICE_OPTIONS b) (hstAmount SERVICE_OPTIONS b)"
    "depositAmount SERVICE_OPTIONS b = js_mul (totalCost SERVICE_OPTIONS b) (lit (30 / 100))"
    "remainingAmount SERVICE_OPTIONS b = js_mul (totalCost SERVICE_OPTIONS b) (lit (70 / 100))"
    by (simp_all only: hstAmount_def totalCost_def depositAmount_def remainingAmount_def
        HST_RATE_def)
  have exact: "subtotal SERVICE_OPTIONS b = hourlyRate s * hours b"
    if "distinct (map service_id SERVICE_OPTIONS) \<and> s \<in> set SERVICE_OPTIONS \<and>
        service b = Some (service_id s) \<and>
        hourlyRate s = of_nat R \<and> R \<le> 2 ^ 20 \<and> hours b = of_nat k / 2 \<and> k \<le> 2 ^ 20"
  proof -
    from that have "subtotal SERVICE_OPTIONS b = js_mul (hourlyRate s) (hours b)" by (intro sel) blast
    moreover from that have "hourlyRate s = of_nat R" "hours b = of_nat k / 2"
      "R \<le> 2 ^ 20" "k \<le> 2 ^ 20" by blast+
    ultimately show ?thesis by (simp only: js_mul_rate_hours)
  qed
  have cur: "\<forall>s. currentService SERVICE_OPTIONS b = Some s \<longrightarrow>
        subtotal SERVICE_OPTIONS b = js_mul (hourlyRate s) (hours b)"
    by (simp add: subtotal_def)
  have zero: "subtotal SERVICE_OPTIONS b = 0 \<and> hstAmount SERVICE_OPTIONS b = 0 \<and>
      totalCost SERVICE_OPTIONS b = 0 \<and> depositAmount SERVICE_OPTIONS b = 0 \<and>
      remainingAmount SERVICE_OPTIONS b = 0"
    if "service b = None \<or> (\<exists>sid. service b = Some sid \<and> sid \<notin> service_id ` set SERVICE_OPTIONS)"
    using none [OF that]
    by (simp add: subtotal_def hstAmount_def totalCost_def depositAmount_def remainingAmount_def
        js_mul_zero js_add_zero_zero)
  show ?thesis
  proof (intro conjI impI)
    assume h: "distinct (map service_id SERVICE_OPTIONS) \<and> s \<in> set SERVICE_OPTIONS \<and>
        service b = Some (service_id s)"
    note e = sel [OF h]
    show "subtotal SERVICE_OPTIONS b = js_mul (hourlyRate s) (hours b)" by (rule e)
    show "hstAmount SERVICE_OPTIONS b = js_mul (js_mul (hourlyRate s) (hours b)) (lit (13 / 100))"
      by (simp only: rel(1) e)
    show "totalCost SERVICE_OPTIONS b =
        js_add (js_mul (hourlyRate s) (hours b))
               (js_mul (js_mul (hourlyRate s) (hours b)) (lit (13 / 100)))"
      by (simp only: rel(2) rel(1) e)
    show "depositAmount SERVICE_OPTIONS b =
        js_mul (js_add (js_mul (hourlyRate s) (hours b))
                       (js_mul (js_mul (hourlyRate s) (hours b)) (lit (13 / 100))))
               (lit (30 / 100))"
      by (simp only: rel(3) rel(2) rel(1) e)
    show "remainingAmount SERVICE_OPTIONS b =
        js_mul (js_add (js_mul (hourlyRate s) (hours b))
                       (js_mul (js_mul (hourlyRate s) (hours b)) (lit (13 / 100))))
               (lit (70 / 100))"
      by (simp only: rel(4) rel(2) rel(1) e)
  qed (use exact cur rel zero in blast)+
qed

text \<open>The office service, second in the catalog at 60 an hour, for 5 hours; the scenario of
  the specification, the home service at 50 an hour for 2.5 hours; a service the catalog does
  not hold; and the initial booking, which has no service.\<close>

theorem pricing_figures_witness:
  "subtotal catalog (INITIAL_STATE\<lparr>service := Some ''office'', hours := 5\<rparr>) = 300 \<and>
   hstAmount catalog (INITIAL_STATE\<lparr>service := Some ''office'', hours := 5\<rparr>) = 39 \<and>
   subtotal catalog (INITIAL_STATE\<lparr>service := Some ''standard'', hours := 5 / 2\<rparr>) = 125 \<and>
   subtotal catalog (INITIAL_STATE\<lparr>service := Some ''standard'', hours := 5 / 2\<rparr>) = 50 * (5 / 2) \<and>
   hstAmount catalog (INITIAL_STATE\<lparr>service := Some ''standard'', hours := 5 / 2\<rparr>) = 65 / 4 \<and>
   totalCost catalog (INITIAL_STATE\<lparr>service := Some ''standard'', hours := 5 / 2\<rparr>) = 565 / 4 \<and>
   depositAmount catalog (INITIAL_STATE\<lparr>service := Some ''standard'', hours := 5 / 2\<rparr>) = 339 / 8 \<and>
   remainingAmount catalog (INITIAL_STATE\<lparr>service := Some ''standard'', hours := 5 / 2\<rparr>) = 791 / 8 \<and>
   totalCost catalog (INITIAL_STATE\<lparr>service := Some ''deep''\<rparr>) = 0 \<and>
   service INITIAL_STATE = None \<and> totalCost catalog INITIAL_STATE = 0"
proof -
  let ?o = "INITIAL_STATE\<lparr>service := Some ''office'', hours := 5\<rparr>"
  let ?b = "INITIAL_STATE\<lparr>service := Some ''standard'', hours := 5 / 2\<rparr>"
  let ?d = "INITIAL_STATE\<lparr>service := Some ''deep''\<rparr>"
  let ?std = "\<lparr> service_id = ''standard'', title = ''Standard Home Clean'', hourlyRate = 50,
         recommendedHours = 3 \<rparr>"
  let ?off = "\<lparr> service_id = ''office'', title = ''Office Cleaning'', hourlyRate = 60,
         recommendedHours = 4 \<rparr>"
  have dist: "distinct (map service_id catalog)" by (simp add: catalog_def)
  have ho: "distinct (map service_id catalog) \<and> ?off \<in> set catalog \<and>
      service ?o = Some (service_id ?off)"
    using dist by (simp add: catalog_def)
  have hb: "distinct (map service_id catalog) \<and> ?std \<in> set catalog \<and>
      service ?b = Some (service_id ?std)"
    using dist by (simp add: catalog_def)
  have hd: "service ?d = None \<or>
      (\<exists>sid. service ?d = Some sid \<and> sid \<notin> service_id ` set catalog)"
    by (simp add: catalog_def)
  have none: "service INITIAL_STATE = None" by (simp add: INITIAL_STATE_def)
  from pricing_figures [of catalog ?off ?o] ho
  have o1: "subtotal catalog ?o = js_mul 60 5"
    and o2: "hstAmount catalog ?o = js_mul (js_mul 60 5) (lit (13 / 100))"
    by simp_all
  from pricing_figures [of catalog ?std ?b] hb
  have b1: "subtotal catalog ?b = js_mul 50 (5 / 2)"
    and b2: "hstAmount catalog ?b = js_mul (subtotal catalog ?b) (lit (13 / 100))"
    and b3: "totalCost catalog ?b = js_add (subtotal catalog ?b) (hstAmount catalog ?b)"
    and b4: "depositAmount catalog ?b = js_mul (totalCost catalog ?b) (lit (30 / 100))"
    and b5: "remainingAmount catalog ?b = js_mul (totalCost catalog ?b) (lit (70 / 100))"
    by simp_all
  have so: "subtotal catalog ?o = 300" unfolding o1 by (simp add: js_eval dbl_eval)
  have "js_mul 60 5 = 300" by (simp add: js_eval dbl_eval)
  then have to: "hstAmount catalog ?o = 39" unfolding o2 by (simp add: js_eval dbl_eval)
  have s: "subtotal catalog ?b = 125" unfolding b1 by (simp add: js_eval dbl_eval)
  have h: "hstAmount catalog ?b = 65 / 4" unfolding b2 s by (simp add: js_eval dbl_eval)
  have t: "totalCost catalog ?b = 565 / 4" unfolding b3 s h by (simp add: js_eval dbl_eval)
  have d: "depositAmount catalog ?b = 339 / 8" unfolding b4 t by (simp add: js_eval dbl_eval)
  have r: "remainingAmount catalog ?b = 791 / 8" unfolding b5 t by (simp add: js_eval dbl_eval)
  have hx: "distinct (map service_id catalog) \<and> ?std \<in> set catalog \<and>
      service ?b = Some (service_id ?std) \<and>
      hourlyRate ?std = of_nat 50 \<and> (50 :: nat) \<le> 2 ^ 20 \<and> hours ?b = of_nat 5 / 2 \<and> (5 :: nat) \<le> 2 ^ 20"
    using hb by simp
  from pricing_figures [of catalog ?std ?b 50 5] hx
  have "subtotal catalog ?b = hourlyRate ?std * hours ?b" by blast
  then have x: "subtotal catalog ?b = 50 * (5 / 2)" by simp
  from pricing_figures [of catalog ?std ?d] hd
  have zd: "totalCost catalog ?d = 0" by blast
  from pricing_figures [of catalog ?std INITIAL_STATE] none
  have z: "totalCost catalog INITIAL_STATE = 0" by blast
  from so to s x h t d r zd none z show ?thesis by blast
qed

end
